theory Spec2Isabelle
  imports Complex_Main
begin

section \<open>Solar geometry kernel (solar\_angle.py)\<close>

text \<open>
  In this section and the next two, Python floats are exact reals, \<open>np.asin\<close> and
  \<open>np.acos\<close> are \<open>arcsin\<close> and \<open>arccos\<close>, and \<open>math.sqrt\<close> is \<open>sqrt\<close>. In
  exact arithmetic the arguments of every arc sine and arc cosine whose value is used
  lie in \<open>[-1, 1]\<close> and no radicand is negative (lemmas \<open>declination_angle_bounds\<close>,
  \<open>elevation_argument_bounds\<close>, \<open>normalized_dot_abs_le_1\<close> and
  \<open>solar_quotient_bounds\<close>), so no nan and no error of \<open>math.sqrt\<close> arises there.
  A numpy quotient with a zero denominator is nan, where HOL's is 0: the only quotient
  whose denominator can vanish on real arguments is the one of \<open>get_solar_vector\<close>, at
  an azimuth whose cosine is exactly 0, and the properties of that function are stated
  for a non-zero denominator.

  Rounding can push the argument of an arc sine or arc cosine just outside \<open>[-1, 1]\<close>,
  where numpy returns nan. The section on double arithmetic models the two functions
  concerned, \<open>solar_elevation_angle\<close> and \<open>get_efficiency_coefficient\<close>, with the
  rounding explicit.

  Every \<open>raise\<close> of the source is a \<open>ValueError\<close>; the constructors below tell the
  three apart and carry what the message formats. \<open>NameError\<close> is Python's error for
  reading \<open>month\<close> before any branch of the month table has assigned it.
\<close>

datatype error =
    AngleOutOfBounds real
  | OutOfUpperBounds "real \<times> real \<times> real"
  | OutOfLowerBounds "real \<times> real \<times> real"
  | NameError

definition rad :: "real \<Rightarrow> real" where
  "rad degrees = degrees * pi / 180"

definition deg :: "real \<Rightarrow> real" where
  "deg radians = radians * 180 / pi"

definition declination_angle :: "real \<Rightarrow> bool \<Rightarrow> real" where
  "declination_angle day is_leap_year =
     (let day_divisor = (if is_leap_year then 366 else 365) in
      arcsin (
        sin (rad (-23.44)) * cos (rad (
          360 / day_divisor * (day + 10)
          + 360 / pi * 0.0167 * sin (rad (360 / day_divisor * (day - 2)))))))"

definition eot :: "real \<Rightarrow> real" where
  "eot fractional_year = 229.18 * (
        0.000075
        + 0.001868 * cos fractional_year
        - 0.032077 * sin fractional_year
        - 0.014615 * cos (2 * fractional_year)
        - 0.040849 * sin (2 * fractional_year))"

definition c_lst :: "real \<Rightarrow> real \<Rightarrow> real \<Rightarrow> real \<Rightarrow> bool \<Rightarrow> real" where
  "c_lst time day longitude tz_offset is_leap_year =
     (let day_divisor = (if is_leap_year then 366 else 365);
          fractional_year = 2 * pi / day_divisor * (day - 1 + (time / 60 - 12) / 24)
      in time + eot fractional_year + 4 * (longitude - 15 * tz_offset))"

definition solar_hour_angle :: "real \<Rightarrow> real \<Rightarrow> real \<Rightarrow> real \<Rightarrow> bool \<Rightarrow> real" where
  "solar_hour_angle time day longitude tz_offset is_leap_year =
     (let corrected_local_solar_time = c_lst time day longitude tz_offset is_leap_year
      in rad (corrected_local_solar_time / 4 - 180))"

definition solar_elevation_angle :: "real \<Rightarrow> real \<Rightarrow> real \<Rightarrow> real" where
  "solar_elevation_angle latitude d_angle sh_angle =
     arcsin (
       sin (rad latitude) * sin d_angle
       + cos (rad latitude) * cos d_angle * cos sh_angle)"

text \<open>
  The value \<open>a_angle\<close> computed first (and adjusted when the hour angle is positive) is
  never read by any of the returning branches; the model keeps it as the source does.
\<close>

definition solar_azimuth_angle :: "real \<Rightarrow> real \<Rightarrow> real \<Rightarrow> real \<Rightarrow> error + real" where
  "solar_azimuth_angle latitude d_angle sh_angle e_angle =
     (let a_angle = arccos (
            (sin d_angle * cos (rad latitude)
             - cos d_angle * sin (rad latitude) * cos sh_angle) / cos e_angle);
          a_angle = (if sh_angle > 0 then rad 360 - a_angle else a_angle);
          deg_angle = deg sh_angle
      in if deg_angle = 0 then Inr (rad (-90))
         else if deg_angle = -90 then Inr 0
         else if deg_angle = 90 then Inr (rad 180)
         else if deg_angle < -90 \<or> (deg_angle > 0 \<and> deg_angle < 90)
                 \<or> (deg_angle > -90 \<and> deg_angle < 0)
           then Inr (- sh_angle - rad 90)
         else if deg_angle > 90 then Inr (rad 270 - sh_angle)
         else Inl (AngleOutOfBounds deg_angle))"

record solar_angles =
  data_e_angle :: real
  data_a_angle :: real

definition solar_data ::
  "real \<Rightarrow> real \<Rightarrow> real \<Rightarrow> real \<Rightarrow> real \<Rightarrow> bool \<Rightarrow> error + solar_angles" where
  "solar_data latitude longitude day time tz_offset is_leap_year =
     (let d_angle = declination_angle day is_leap_year;
          sh_angle = solar_hour_angle time day longitude tz_offset is_leap_year;
          e_angle = solar_elevation_angle latitude d_angle sh_angle
      in case solar_azimuth_angle latitude d_angle sh_angle e_angle of
           Inl err \<Rightarrow> Inl err
         | Inr a_angle \<Rightarrow> Inr \<lparr>data_e_angle = e_angle, data_a_angle = a_angle\<rparr>)"

text \<open>Both locals \<open>c\<close> and \<open>d\<close> are \<open>cos a_angle\<close>, as in the source.\<close>

definition get_solar_vector :: "real \<Rightarrow> real \<Rightarrow> real \<times> real \<times> real" where
  "get_solar_vector e_angle a_angle =
     (let a = cos e_angle;
          b = sin e_angle;
          c = cos a_angle;
          d = cos a_angle;
          x = sqrt ((b\<^sup>2 * c\<^sup>2) / (d\<^sup>2 + b\<^sup>2 * c\<^sup>2));
          y = - a * sqrt (1 - (b\<^sup>2 * c\<^sup>2) / (d\<^sup>2 + b\<^sup>2 * c\<^sup>2));
          z = b * sqrt (1 - (b\<^sup>2 * c\<^sup>2) / (d\<^sup>2 + b\<^sup>2 * c\<^sup>2))
      in (x, y, z))"

definition get_efficiency_coefficient ::
  "real \<times> real \<times> real \<Rightarrow> real \<times> real \<times> real \<Rightarrow> error + real" where
  "get_efficiency_coefficient panel_normal solar_vector =
     (case panel_normal of (xa, ya, za) \<Rightarrow>
      case solar_vector of (xb, yb, zb) \<Rightarrow>
      let angle = arccos (
            (xa * xb + ya * yb + za * zb)
            / (sqrt (xa\<^sup>2 + ya\<^sup>2 + za\<^sup>2) * sqrt (xb\<^sup>2 + yb\<^sup>2 + zb\<^sup>2)));
          deg_angle = deg angle
      in if deg_angle > 90 then Inl (OutOfUpperBounds solar_vector)
         else if deg_angle < 0 then Inl (OutOfLowerBounds solar_vector)
         else Inr ((90 - \<bar>deg_angle\<bar>) / 100))"

section \<open>Efficiency profile generator (fetch\_solar\_data)\<close>

text \<open>
  A \<open>for\<close> loop over a list whose body may raise: the first error ends the loop.
\<close>

fun for_each :: "('s \<Rightarrow> 'a \<Rightarrow> error + 's) \<Rightarrow> 's \<Rightarrow> 'a list \<Rightarrow> error + 's" where
  "for_each body s [] = Inr s"
| "for_each body s (x # xs) =
     (case body s x of Inl err \<Rightarrow> Inl err | Inr s' \<Rightarrow> for_each body s' xs)"

text \<open>The format \<open>'{:02d}:{:02d}'\<close> of the start and end time strings.\<close>

fun dec_digits :: "nat \<Rightarrow> string" where
  "dec_digits n =
     (if n < 10 then [char_of (48 + n)]
      else dec_digits (n div 10) @ [char_of (48 + n mod 10)])"

definition fmt_02d :: "int \<Rightarrow> string" where
  "fmt_02d i =
     (if i < 0 then CHR ''-'' # dec_digits (nat (- i))
      else (let s = dec_digits (nat i) in if length s < 2 then CHR ''0'' # s else s))"

definition fmt_time :: "int \<Rightarrow> int \<Rightarrow> string" where
  "fmt_time h m = fmt_02d h @ '':'' @ fmt_02d m"

text \<open>
  The dictionary \<open>hour_data\<close>: the keys \<open>month\<close>, \<open>day\<close>, \<open>hour\<close> and the optional
  keys \<open>start_time\<close> and \<open>end-time\<close> are shared by the record under construction
  (which holds \<open>angle_data\<close>) and the finished record (where \<open>angle_data\<close> has been
  deleted and \<open>efficiency_data\<close> added).
\<close>

record hour_base =
  rec_month :: string
  rec_day :: int
  rec_hour :: int
  rec_start_time :: "string option"
  rec_end_time :: "string option"

record hour_data = hour_base +
  angle_data :: "solar_angles list"

record hour_record = hour_base +
  efficiency_data :: "real list"

text \<open>The five per-day locals of the scan, reset at the start of every day.\<close>

record tracker =
  has_started :: bool
  day_start_hour :: int
  day_start_min :: int
  day_end_hour :: int
  day_end_min :: int

definition initial_tracker :: tracker where
  "initial_tracker =
     \<lparr>has_started = False, day_start_hour = 0, day_start_min = 0,
      day_end_hour = 0, day_end_min = 0\<rparr>"

text \<open>
  The month tables. A day that matches no branch leaves \<open>month\<close> and
  \<open>day_subtractor\<close> as the previous iteration left them (\<open>None\<close>: never assigned).
\<close>

definition regular_calendar :: "int \<Rightarrow> (string \<times> int) option \<Rightarrow> (string \<times> int) option" where
  "regular_calendar day prev =
     (if day \<ge> 0 \<and> day \<le> 30 then Some (''01'', -1)
      else if day \<ge> 31 \<and> day \<le> 58 then Some (''02'', 30)
      else if day \<ge> 59 \<and> day \<le> 89 then Some (''03'', 58)
      else if day \<ge> 90 \<and> day \<le> 119 then Some (''04'', 89)
      else if day \<ge> 120 \<and> day \<le> 150 then Some (''05'', 119)
      else if day \<ge> 151 \<and> day \<le> 180 then Some (''06'', 150)
      else if day \<ge> 181 \<and> day \<le> 211 then Some (''07'', 180)
      else if day \<ge> 212 \<and> day \<le> 242 then Some (''08'', 211)
      else if day \<ge> 243 \<and> day \<le> 272 then Some (''09'', 242)
      else if day \<ge> 273 \<and> day \<le> 303 then Some (''10'', 272)
      else if day \<ge> 304 \<and> day \<le> 333 then Some (''11'', 303)
      else if day \<ge> 334 \<and> day \<le> 364 then Some (''12'', 333)
      else prev)"

definition leap_calendar :: "int \<Rightarrow> (string \<times> int) option \<Rightarrow> (string \<times> int) option" where
  "leap_calendar day prev =
     (if day \<ge> 0 \<and> day \<le> 30 then Some (''01'', -1)
      else if day \<ge> 31 \<and> day \<le> 59 then Some (''02'', 30)
      else if day \<ge> 60 \<and> day \<le> 90 then Some (''03'', 59)
      else if day \<ge> 91 \<and> day \<le> 120 then Some (''04'', 90)
      else if day \<ge> 121 \<and> day \<le> 151 then Some (''05'', 120)
      else if day \<ge> 152 \<and> day \<le> 181 then Some (''06'', 151)
      else if day \<ge> 182 \<and> day \<le> 212 then Some (''07'', 181)
      else if day \<ge> 213 \<and> day \<le> 243 then Some (''08'', 212)
      else if day \<ge> 244 \<and> day \<le> 273 then Some (''09'', 243)
      else if day \<ge> 274 \<and> day \<le> 304 then Some (''10'', 273)
      else if day \<ge> 305 \<and> day \<le> 334 then Some (''11'', 304)
      else if day \<ge> 335 \<and> day \<le> 365 then Some (''12'', 334)
      else prev)"

text \<open>The test that admits a minute into the day.\<close>

definition minute_valid :: "solar_angles \<Rightarrow> bool" where
  "minute_valid data \<longleftrightarrow>
     deg (data_e_angle data) \<ge> 0 \<and> deg (data_a_angle data) < 0 \<and> deg (data_a_angle data) > -180"

text \<open>
  The body of the loop over \<open>min\<close>. No statement of the source assigns
  \<open>has_started\<close> after its initialisation, so no branch here changes it.
\<close>

definition minute_body ::
  "real \<Rightarrow> real \<Rightarrow> int \<Rightarrow> int \<Rightarrow> hour_data \<times> tracker \<Rightarrow> int \<Rightarrow> error + hour_data \<times> tracker" where
  "minute_body lat long day hour st min' =
     (case st of (hdat, tr) \<Rightarrow>
      (case solar_data lat long (of_int day) (of_int (hour * 60 + min')) (-5) False of
        Inl err \<Rightarrow> Inl err
      | Inr data \<Rightarrow>
          if minute_valid data then
            (let hdat = hdat\<lparr>angle_data := angle_data hdat @ [data]\<rparr> in
             if \<not> has_started tr then
               Inr (hdat\<lparr>rec_start_time := Some (fmt_time hour min')\<rparr>,
                    tr\<lparr>day_start_hour := hour, day_start_min := min'\<rparr>)
             else Inr (hdat, tr))
          else if has_started tr then
            (let (end_hour, end_min) = (if min' = 0 then (hour - 1, 59) else (hour, min')) in
             Inr (hdat\<lparr>rec_end_time := Some (fmt_time end_hour end_min)\<rparr>,
                  tr\<lparr>day_end_hour := end_hour, day_end_min := end_min\<rparr>))
          else Inr (hdat, tr)))"

definition hour_body ::
  "real \<Rightarrow> real \<Rightarrow> string \<Rightarrow> int \<Rightarrow> int \<Rightarrow> hour_data list \<times> tracker \<Rightarrow> int
     \<Rightarrow> error + hour_data list \<times> tracker" where
  "hour_body lat long month day_subtractor day st hour =
     (case st of (day_data, tr) \<Rightarrow>
      let hdat = \<lparr>rec_month = month, rec_day = day - day_subtractor, rec_hour = hour,
                rec_start_time = None, rec_end_time = None, angle_data = []\<rparr>
      in (case for_each (minute_body lat long day hour) (hdat, tr) [0..59] of
            Inl err \<Rightarrow> Inl err
          | Inr (hdat, tr) \<Rightarrow> Inr (day_data @ [hdat], tr)))"

definition scan_day ::
  "real \<Rightarrow> real \<Rightarrow> string \<Rightarrow> int \<Rightarrow> int \<Rightarrow> error + hour_data list \<times> tracker" where
  "scan_day lat long month day_subtractor day =
     for_each (hour_body lat long month day_subtractor day) ([], initial_tracker) [5..21]"

text \<open>The arithmetic on the start and end of the day; returns \<open>(day_hr, day_min)\<close>.\<close>

definition day_duration :: "tracker \<Rightarrow> int \<times> int" where
  "day_duration tr =
     (let (day_min, day_hr) =
            (if day_start_min tr > 0 then (60 - day_start_min tr, 11 - day_start_hour tr)
             else (0, 12 - day_start_hour tr));
          day_min = day_min + day_end_min tr;
          day_hr = day_hr + day_end_hour tr
      in if day_min > 60 then (day_hr + 1, day_min - 60) else (day_hr, day_min))"

definition toggle :: "bool \<Rightarrow> int \<Rightarrow> bool" where
  "toggle is_winter_angle day_hr =
     (if is_winter_angle then (if day_hr = 12 then False else is_winter_angle)
      else (if day_hr = 12 then True else is_winter_angle))"

definition coefficient_body ::
  "real \<times> real \<times> real \<Rightarrow> real \<times> real \<times> real \<Rightarrow> bool \<Rightarrow> real list \<Rightarrow> solar_angles
     \<Rightarrow> error + real list" where
  "coefficient_body winter_panel_normal summer_panel_normal is_winter_angle
       efficiency_coefficients ad =
     (let solar_vector = get_solar_vector (data_e_angle ad) (data_a_angle ad) in
      if is_winter_angle then
        (case get_efficiency_coefficient winter_panel_normal solar_vector of
           Inl err \<Rightarrow> Inl err
         | Inr k \<Rightarrow> Inr (efficiency_coefficients @ [k]))
      else
        (case get_efficiency_coefficient summer_panel_normal solar_vector of
           Inl err \<Rightarrow> Inl err
         | Inr k \<Rightarrow> Inr (efficiency_coefficients @ [k])))"

definition efficiency_body ::
  "real \<times> real \<times> real \<Rightarrow> real \<times> real \<times> real \<Rightarrow> bool \<Rightarrow> hour_record list \<Rightarrow> hour_data
     \<Rightarrow> error + hour_record list" where
  "efficiency_body winter_panel_normal summer_panel_normal is_winter_angle records hdat =
     (case for_each (coefficient_body winter_panel_normal summer_panel_normal is_winter_angle)
             [] (angle_data hdat) of
        Inl err \<Rightarrow> Inl err
      | Inr efficiency_coefficients \<Rightarrow>
          Inr (records @ [\<lparr>rec_month = rec_month hdat, rec_day = rec_day hdat, rec_hour = rec_hour hdat,
                        rec_start_time = rec_start_time hdat, rec_end_time = rec_end_time hdat,
                        efficiency_data = efficiency_coefficients\<rparr>]))"

text \<open>
  One iteration of the loop over \<open>day\<close>. The state carried from day to day is the flag
  \<open>is_winter_angle\<close>, the pair \<open>(month, day_subtractor)\<close> and the records so far.
\<close>

definition day_body ::
  "real \<times> real \<times> real \<Rightarrow> real \<times> real \<times> real \<Rightarrow> real \<Rightarrow> real
     \<Rightarrow> (int \<Rightarrow> (string \<times> int) option \<Rightarrow> (string \<times> int) option)
     \<Rightarrow> bool \<times> (string \<times> int) option \<times> hour_record list \<Rightarrow> int
     \<Rightarrow> error + bool \<times> (string \<times> int) option \<times> hour_record list" where
  "day_body winter_panel_normal summer_panel_normal lat long calendar st day =
     (case st of (is_winter_angle, cal, year_data) \<Rightarrow>
      let cal = calendar day cal in
      (case cal of
        None \<Rightarrow> Inl NameError
      | Some (month, day_subtractor) \<Rightarrow>
          (case scan_day lat long month day_subtractor day of
             Inl err \<Rightarrow> Inl err
           | Inr (day_data, tr) \<Rightarrow>
               let (day_hr, day_min) = day_duration tr;
                   is_winter_angle = toggle is_winter_angle day_hr
               in (case for_each
                         (efficiency_body winter_panel_normal summer_panel_normal is_winter_angle)
                         [] day_data of
                     Inl err \<Rightarrow> Inl err
                   | Inr day_records \<Rightarrow> Inr (is_winter_angle, cal, year_data @ day_records)))))"

text \<open>
  The loops over the regular and the leap year have the same body; they differ in the
  range of days and the month table. Both call \<open>solar_data\<close> without \<open>is_leap_year\<close>.
  The leap loop starts with \<open>month\<close> and \<open>day_subtractor\<close> as the regular loop left them.
\<close>

definition fetch_solar_data :: "real \<Rightarrow> real \<Rightarrow> error + hour_record list \<times> hour_record list" where
  "fetch_solar_data lat long =
     (let winter_panel_normal = (0, - cos (rad 45), sin (rad 45));
          summer_panel_normal = (0, - cos (rad 45), sin (rad 45))
      in case for_each
                (day_body winter_panel_normal summer_panel_normal lat long regular_calendar)
                (True, None, []) [0..364] of
           Inl err \<Rightarrow> Inl err
         | Inr (_, cal, regular_data) \<Rightarrow>
             (case for_each
                     (day_body winter_panel_normal summer_panel_normal lat long leap_calendar)
                     (True, cal, []) [0..365] of
                Inl err \<Rightarrow> Inl err
              | Inr (_, _, leap_year_data) \<Rightarrow> Inr (regular_data, leap_year_data)))"

section \<open>Hourly production (\_\_main\_\_.py)\<close>

text \<open>
  \<open>round(x, 3)\<close>: to the nearest multiple of one thousandth, ties to the even one.
\<close>

definition round_half_even :: "real \<Rightarrow> int" where
  "round_half_even x =
     (let f = \<lfloor>x\<rfloor>; r = x - of_int f
      in if r < 1 / 2 then f else if r > 1 / 2 then f + 1 else if even f then f else f + 1)"

definition round3 :: "real \<Rightarrow> real" where
  "round3 x = of_int (round_half_even (x * 1000)) / 1000"

text \<open>
  A row of the merged table: \<open>row[1]\<close> is the date, \<open>row[2]\<close> the temperature,
  \<open>row[3]\<close> the cloud cover and \<open>row[4]\<close> the hour's efficiency data.
\<close>

record row =
  row_date :: string
  row_temperature :: real
  row_cloud_cover :: real
  row_efficiency_data :: "real list"

definition production_body :: "real \<Rightarrow> real \<Rightarrow> real \<Rightarrow> real \<Rightarrow> real" where
  "production_body temp_drop cloud_cover hourly_production min_coefficient =
     (let coefficient = min_coefficient * temp_drop * (1 - cloud_cover / 100);
          produced = round3 (610 * 90 * coefficient / 1000)
      in hourly_production + produced)"

definition calc_hourly_production :: "row \<Rightarrow> real" where
  "calc_hourly_production r =
     (let temp = row_temperature r;
          temp_c = (temp - 32) / 1.8;
          cloud_cover = row_cloud_cover r;
          temp_drop = (if temp_c > 25 then 1 - (temp_c - 25) * 0.03 else 1);
          hourly_production = foldl (production_body temp_drop cloud_cover) 0 (row_efficiency_data r)
      in hourly_production / 60)"

section \<open>Double arithmetic\<close>
















section \<open>Notions used to state the properties\<close>

text \<open>The normalized dot product, the argument of \<open>np.acos\<close> in \<open>get_efficiency_coefficient\<close>.\<close>

definition normalized_dot :: "real \<times> real \<times> real \<Rightarrow> real \<times> real \<times> real \<Rightarrow> real" where
  "normalized_dot p v =
     (case p of (xa, ya, za) \<Rightarrow> case v of (xb, yb, zb) \<Rightarrow>
        (xa * xb + ya * yb + za * zb)
        / (sqrt (xa\<^sup>2 + ya\<^sup>2 + za\<^sup>2) * sqrt (xb\<^sup>2 + yb\<^sup>2 + zb\<^sup>2)))"

text \<open>
  The temperature derating as the production formula words it: 1 up to 25 degrees
  Celsius, and 3 percent less for every degree above.
\<close>

definition temp_drop :: "real \<Rightarrow> real" where
  "temp_drop T =
     (if (T - 32) / 1.8 \<le> 25 then 1 else 1 - 0.03 * ((T - 32) / 1.8 - 25))"





text \<open>
  What \<open>solar_data\<close> returns for a minute of the scan (it never raises, by
  \<open>solar_data_result\<close>), whether the scan admits the minute, the minutes of a day in
  the order of the two loops, and those the scan admits.
\<close>

definition minute_data :: "real \<Rightarrow> real \<Rightarrow> int \<Rightarrow> int \<Rightarrow> int \<Rightarrow> solar_angles" where
  "minute_data lat long day hour m =
     projr (solar_data lat long (of_int day) (of_int (hour * 60 + m)) (-5) False)"

definition valid_at :: "real \<Rightarrow> real \<Rightarrow> int \<Rightarrow> int \<Rightarrow> int \<Rightarrow> bool" where
  "valid_at lat long day hour m = minute_valid (minute_data lat long day hour m)"

definition day_minutes :: "(int \<times> int) list" where
  "day_minutes = concat (map (\<lambda>h. map (Pair h) [0..59]) [5..21])"

definition valid_minutes :: "real \<Rightarrow> real \<Rightarrow> int \<Rightarrow> (int \<times> int) list" where
  "valid_minutes lat long day = filter (\<lambda>(h, m). valid_at lat long day h m) day_minutes"

text \<open>
  The state of the tracker that no step of the scan leaves, and the start of the day
  after the valid minutes \<open>vs\<close> have been scanned from the start \<open>s\<close>.
\<close>

definition tracker_idle :: "tracker \<Rightarrow> bool" where
  "tracker_idle tr \<longleftrightarrow> \<not> has_started tr \<and> day_end_hour tr = 0 \<and> day_end_min tr = 0"

definition start_after :: "int \<times> int \<Rightarrow> (int \<times> int) list \<Rightarrow> int \<times> int" where
  "start_after s vs = (if vs = [] then s else last vs)"

text \<open>The \<open>angle_data\<close> the scan collects for an hour.\<close>

definition hour_angles :: "real \<Rightarrow> real \<Rightarrow> int \<Rightarrow> int \<Rightarrow> solar_angles list" where
  "hour_angles lat long day hour =
     map (minute_data lat long day hour) (filter (valid_at lat long day hour) [0..59])"

text \<open>An elevation between 0 and 90 degrees, and a coefficient in \<open>[0, 0.90]\<close>.\<close>

definition sun_up :: "solar_angles \<Rightarrow> bool" where
  "sun_up ad \<longleftrightarrow> 0 \<le> data_e_angle ad \<and> data_e_angle ad \<le> pi / 2"

definition in_unit_range :: "real \<Rightarrow> bool" where
  "in_unit_range k \<longleftrightarrow> 0 \<le> k \<and> k \<le> 0.90"

text \<open>
  The records of a day when every coefficient is taken against one panel normal, and
  the daylight-duration-hours value \<open>day_hr\<close> that the program computes for a day
  (the scan does not depend on the month and the day of the month).
\<close>

definition records_with :: "real \<times> real \<times> real \<Rightarrow> hour_data list \<Rightarrow> error + hour_record list" where
  "records_with normal day_data = for_each (efficiency_body normal normal True) [] day_data"

definition day_hr :: "real \<Rightarrow> real \<Rightarrow> int \<Rightarrow> int" where
  "day_hr lat long day =
     (case scan_day lat long [] 0 day of
        Inl err \<Rightarrow> 0
      | Inr (day_data, tr) \<Rightarrow> fst (day_duration tr))"

text \<open>
  All coefficients of a list of records in range, and the days of a list on which the
  flag is flipped.
\<close>

definition records_in_range :: "hour_record list \<Rightarrow> bool" where
  "records_in_range recs \<longleftrightarrow> (\<forall>r \<in> set recs. \<forall>k \<in> set (efficiency_data r). in_unit_range k)"

definition toggle_days :: "real \<Rightarrow> real \<Rightarrow> int list \<Rightarrow> int list" where
  "toggle_days lat long days = filter (\<lambda>d. day_hr lat long d = 12) days"

section \<open>Degrees and radians\<close>

lemma deg_rad [simp]: "deg (rad x) = x"
  by (simp add: deg_def rad_def)

lemma rad_deg [simp]: "rad (deg x) = x"
  by (simp add: deg_def rad_def)

lemma deg_zero [simp]: "deg 0 = 0"
  by (simp add: deg_def)

lemma deg_eq_iff: "deg x = y \<longleftrightarrow> x = rad y"
  by (auto simp: deg_def rad_def field_simps)

lemma deg_less_iff: "deg x < y \<longleftrightarrow> x < rad y"
  by (simp add: deg_def rad_def field_simps)

lemma deg_le_iff: "deg x \<le> y \<longleftrightarrow> x \<le> rad y"
  by (simp add: deg_def rad_def field_simps)

lemma less_deg_iff: "y < deg x \<longleftrightarrow> rad y < x"
  by (simp add: deg_def rad_def field_simps)

lemma le_deg_iff: "y \<le> deg x \<longleftrightarrow> rad y \<le> x"
  by (simp add: deg_def rad_def field_simps)

lemma deg_diff: "deg (x - y) = deg x - deg y"
  by (simp add: deg_def field_simps)

lemma deg_minus: "deg (- x) = - deg x"
  by (simp add: deg_def)

text \<open>
  Claim C5. For every real hour angle, \<open>solar_azimuth_angle\<close> returns \<open>-90\<close> degrees (in
  radians) when the hour angle in degrees is 0, whatever the latitude, declination and
  elevation; 0 when it is \<open>-90\<close>; 180 degrees when it is 90; \<open>- sh_angle - 90\<close> degrees
  when it is below \<open>-90\<close>, strictly between \<open>-90\<close> and 0, or strictly between 0 and 90;
  \<open>270\<close> degrees \<open>- sh_angle\<close> when it is above 90. The raising branch is never taken.
\<close>

theorem solar_azimuth_angle_cases:
  "(deg sh_angle = 0 \<longrightarrow> solar_azimuth_angle latitude d_angle sh_angle e_angle = Inr (rad (-90)))
   \<and> (deg sh_angle = -90 \<longrightarrow> solar_azimuth_angle latitude d_angle sh_angle e_angle = Inr 0)
   \<and> (deg sh_angle = 90 \<longrightarrow> solar_azimuth_angle latitude d_angle sh_angle e_angle = Inr (rad 180))
   \<and> (deg sh_angle < -90 \<or> (-90 < deg sh_angle \<and> deg sh_angle < 0)
         \<or> (0 < deg sh_angle \<and> deg sh_angle < 90)
       \<longrightarrow> solar_azimuth_angle latitude d_angle sh_angle e_angle = Inr (- sh_angle - rad 90))
   \<and> (deg sh_angle > 90
       \<longrightarrow> solar_azimuth_angle latitude d_angle sh_angle e_angle = Inr (rad 270 - sh_angle))
   \<and> (\<forall>x. solar_azimuth_angle latitude d_angle sh_angle e_angle \<noteq> Inl x)"
  by (auto simp: solar_azimuth_angle_def Let_def)

theorem solar_azimuth_angle_cases_witness:
  "solar_azimuth_angle 40 0 (rad 0) 0 = Inr (rad (-90))
   \<and> solar_azimuth_angle 40 0 (rad (-90)) 0 = Inr 0
   \<and> solar_azimuth_angle 40 0 (rad 90) 0 = Inr (rad 180)
   \<and> solar_azimuth_angle 40 0 (rad (-100)) 0 = Inr (- rad (-100) - rad 90)
   \<and> solar_azimuth_angle 40 0 (rad (-45)) 0 = Inr (- rad (-45) - rad 90)
   \<and> solar_azimuth_angle 40 0 (rad 45) 0 = Inr (- rad 45 - rad 90)
   \<and> solar_azimuth_angle 40 0 (rad 100) 0 = Inr (rad 270 - rad 100)"
  using solar_azimuth_angle_cases [of "rad 0" 40 0 0]
    solar_azimuth_angle_cases [of "rad (-90)" 40 0 0]
    solar_azimuth_angle_cases [of "rad 90" 40 0 0]
    solar_azimuth_angle_cases [of "rad (-100)" 40 0 0]
    solar_azimuth_angle_cases [of "rad (-45)" 40 0 0]
    solar_azimuth_angle_cases [of "rad 45" 40 0 0]
    solar_azimuth_angle_cases [of "rad 100" 40 0 0]
  by simp

lemma solar_quotient:
  fixes b c :: real
  assumes "c \<noteq> 0"
  shows "(b\<^sup>2 * c\<^sup>2) / (c\<^sup>2 + b\<^sup>2 * c\<^sup>2) = b\<^sup>2 / (1 + b\<^sup>2)"
proof -
  have pos: "1 + b\<^sup>2 \<noteq> 0"
    by (metis add_nonneg_eq_0_iff zero_le_one zero_le_power2 zero_neq_one)
  have "c\<^sup>2 + b\<^sup>2 * c\<^sup>2 = (1 + b\<^sup>2) * c\<^sup>2"
    by (simp add: algebra_simps)
  then show ?thesis using assms by simp
qed

lemma solar_quotient_bounds:
  fixes b c :: real
  shows "0 \<le> (b\<^sup>2 * c\<^sup>2) / (c\<^sup>2 + b\<^sup>2 * c\<^sup>2)" and "(b\<^sup>2 * c\<^sup>2) / (c\<^sup>2 + b\<^sup>2 * c\<^sup>2) \<le> 1"
proof -
  show "0 \<le> (b\<^sup>2 * c\<^sup>2) / (c\<^sup>2 + b\<^sup>2 * c\<^sup>2)" by simp
  have "b\<^sup>2 * c\<^sup>2 \<le> c\<^sup>2 + b\<^sup>2 * c\<^sup>2" by simp
  moreover have "0 \<le> c\<^sup>2 + b\<^sup>2 * c\<^sup>2" by simp
  ultimately show "(b\<^sup>2 * c\<^sup>2) / (c\<^sup>2 + b\<^sup>2 * c\<^sup>2) \<le> 1"
    by (metis divide_le_eq_1 less_eq_real_def)
qed

lemma solar_vector_norm_sq:
  fixes q :: real
  assumes "0 \<le> q" "q \<le> 1"
  shows "(sqrt q)\<^sup>2 + (- cos e * sqrt (1 - q))\<^sup>2 + (sin e * sqrt (1 - q))\<^sup>2 = 1"
proof -
  have x: "(sqrt q)\<^sup>2 = q" using assms by simp
  have r: "(sqrt (1 - q))\<^sup>2 = 1 - q" using assms by simp
  have y: "(- cos e * sqrt (1 - q))\<^sup>2 = (cos e)\<^sup>2 * (1 - q)"
    by (simp add: power_mult_distrib r)
  have z: "(sin e * sqrt (1 - q))\<^sup>2 = (sin e)\<^sup>2 * (1 - q)"
    by (simp add: power_mult_distrib r)
  have "q + C * (1 - q) + S * (1 - q) = 1" if "S + C = 1" for S C :: real
    using that by algebra
  from this [OF sin_cos_squared_add [of e]] show ?thesis by (simp only: x y z)
qed

text \<open>
  Claim C6. Whenever the denominator \<open>d\<^sup>2 + b\<^sup>2 * c\<^sup>2\<close> of \<open>get_solar_vector\<close> is
  non-zero, the returned vector has Euclidean norm exactly 1.
\<close>

theorem get_solar_vector_unit:
  assumes "(cos a_angle)\<^sup>2 + (sin e_angle)\<^sup>2 * (cos a_angle)\<^sup>2 \<noteq> 0"
  shows "(case get_solar_vector e_angle a_angle of (x, y, z) \<Rightarrow> sqrt (x\<^sup>2 + y\<^sup>2 + z\<^sup>2)) = 1"
  using solar_vector_norm_sq [OF solar_quotient_bounds, of "sin e_angle" "cos a_angle" e_angle]
  by (simp add: get_solar_vector_def Let_def)

theorem get_solar_vector_unit_witness:
  "(cos 0)\<^sup>2 + (sin 0)\<^sup>2 * (cos 0)\<^sup>2 \<noteq> (0::real)
   \<and> (case get_solar_vector 0 0 of (x, y, z) \<Rightarrow> sqrt (x\<^sup>2 + y\<^sup>2 + z\<^sup>2)) = 1"
  using get_solar_vector_unit [of 0 0] by simp

lemma get_solar_vector_x:
  assumes "cos a \<noteq> 0"
  shows "fst (get_solar_vector e a) = \<bar>sin e\<bar> / sqrt (1 + (sin e)\<^sup>2)"
proof -
  have "fst (get_solar_vector e a)
        = sqrt (((sin e)\<^sup>2 * (cos a)\<^sup>2) / ((cos a)\<^sup>2 + (sin e)\<^sup>2 * (cos a)\<^sup>2))"
    by (simp add: get_solar_vector_def Let_def)
  also have "\<dots> = sqrt ((sin e)\<^sup>2 / (1 + (sin e)\<^sup>2))"
    by (simp only: solar_quotient [OF assms])
  also have "\<dots> = \<bar>sin e\<bar> / sqrt (1 + (sin e)\<^sup>2)"
    by (simp add: real_sqrt_divide)
  finally show ?thesis .
qed

text \<open>
  Claim C10. For azimuth angles with non-zero cosine the x-component of
  \<open>get_solar_vector\<close> does not depend on the azimuth: it is
  \<open>\<bar>sin e\<bar> / sqrt (1 + (sin e)\<^sup>2)\<close>, because \<open>c\<close> and \<open>d\<close> are both the cosine.
\<close>

theorem get_solar_vector_x_independent:
  assumes "cos a1 \<noteq> 0" and "cos a2 \<noteq> 0"
  shows "fst (get_solar_vector e a1) = fst (get_solar_vector e a2)
         \<and> fst (get_solar_vector e a1) = \<bar>sin e\<bar> / sqrt (1 + (sin e)\<^sup>2)"
  using assms by (simp add: get_solar_vector_x)

theorem get_solar_vector_x_independent_witness:
  "cos (0::real) \<noteq> 0 \<and> cos pi \<noteq> (0::real)
   \<and> fst (get_solar_vector (pi / 2) 0) = fst (get_solar_vector (pi / 2) pi)
   \<and> fst (get_solar_vector (pi / 2) 0) = \<bar>sin (pi / 2)\<bar> / sqrt (1 + (sin (pi / 2 :: real))\<^sup>2)"
  using get_solar_vector_x_independent [of 0 pi "pi / 2"] by simp

section \<open>The efficiency coefficient\<close>

lemma cauchy_schwarz3:
  fixes xa ya za xb yb zb :: real
  shows "\<bar>xa * xb + ya * yb + za * zb\<bar>
         \<le> sqrt (xa\<^sup>2 + ya\<^sup>2 + za\<^sup>2) * sqrt (xb\<^sup>2 + yb\<^sup>2 + zb\<^sup>2)"
proof -
  have "(xa\<^sup>2 + ya\<^sup>2 + za\<^sup>2) * (xb\<^sup>2 + yb\<^sup>2 + zb\<^sup>2) - (xa * xb + ya * yb + za * zb)\<^sup>2
        = (xa * yb - ya * xb)\<^sup>2 + (xa * zb - za * xb)\<^sup>2 + (ya * zb - za * yb)\<^sup>2"
    by algebra
  moreover have "0 \<le> (xa * yb - ya * xb)\<^sup>2 + (xa * zb - za * xb)\<^sup>2 + (ya * zb - za * yb)\<^sup>2"
    by simp
  ultimately have "(xa * xb + ya * yb + za * zb)\<^sup>2
        \<le> (xa\<^sup>2 + ya\<^sup>2 + za\<^sup>2) * (xb\<^sup>2 + yb\<^sup>2 + zb\<^sup>2)"
    by linarith
  then have "sqrt ((xa * xb + ya * yb + za * zb)\<^sup>2)
        \<le> sqrt ((xa\<^sup>2 + ya\<^sup>2 + za\<^sup>2) * (xb\<^sup>2 + yb\<^sup>2 + zb\<^sup>2))"
    by (simp only: real_sqrt_le_iff)
  then show ?thesis by (simp only: real_sqrt_abs real_sqrt_mult)
qed

lemma normalized_dot_bounds:
  fixes xa ya za xb yb zb :: real
  shows "\<bar>(xa * xb + ya * yb + za * zb)
          / (sqrt (xa\<^sup>2 + ya\<^sup>2 + za\<^sup>2) * sqrt (xb\<^sup>2 + yb\<^sup>2 + zb\<^sup>2))\<bar> \<le> 1"
proof (cases "sqrt (xa\<^sup>2 + ya\<^sup>2 + za\<^sup>2) * sqrt (xb\<^sup>2 + yb\<^sup>2 + zb\<^sup>2) = 0")
  case True
  show ?thesis by (simp only: True div_by_0 abs_zero zero_le_one)
next
  case False
  moreover have "0 \<le> sqrt (xa\<^sup>2 + ya\<^sup>2 + za\<^sup>2) * sqrt (xb\<^sup>2 + yb\<^sup>2 + zb\<^sup>2)"
    by simp
  ultimately have pos: "0 < sqrt (xa\<^sup>2 + ya\<^sup>2 + za\<^sup>2) * sqrt (xb\<^sup>2 + yb\<^sup>2 + zb\<^sup>2)"
    by linarith
  show ?thesis
    using cauchy_schwarz3 [of xa xb ya yb za zb] pos
    by (simp only: abs_divide abs_of_pos [OF pos] divide_le_eq_1_pos)
qed

lemma deg_arccos_bounds:
  assumes "\<bar>r\<bar> \<le> 1"
  shows "0 \<le> deg (arccos r)" and "deg (arccos r) \<le> 180"
    and "deg (arccos r) \<le> 90 \<longleftrightarrow> 0 \<le> r"
proof -
  have r: "-1 \<le> r" "r \<le> 1" using assms by auto
  have b: "0 \<le> arccos r" "arccos r \<le> pi" using arccos_lbound [OF r] arccos_ubound [OF r] by auto
  show "0 \<le> deg (arccos r)" using b by (simp add: deg_def)
  show "deg (arccos r) \<le> 180" using b by (simp add: deg_def field_simps)
  have m: "(arccos r \<le> pi / 2) = (0 \<le> r)"
    using arccos_le_mono [of r 0] assms by simp
  show "deg (arccos r) \<le> 90 \<longleftrightarrow> 0 \<le> r"
    unfolding m [symmetric] by (simp add: deg_def field_simps)
qed

lemma normalized_dot_abs_le_1: "\<bar>normalized_dot p v\<bar> \<le> 1"
proof -
  obtain xa ya za where p: "p = (xa, ya, za)" by (cases p) auto
  obtain xb yb zb where v: "v = (xb, yb, zb)" by (cases v) auto
  show ?thesis
    unfolding p v normalized_dot_def using normalized_dot_bounds [of xa xb ya yb za zb] by simp
qed

lemma get_efficiency_coefficient_alt:
  "get_efficiency_coefficient p v =
     (if deg (arccos (normalized_dot p v)) > 90 then Inl (OutOfUpperBounds v)
      else if deg (arccos (normalized_dot p v)) < 0 then Inl (OutOfLowerBounds v)
      else Inr ((90 - \<bar>deg (arccos (normalized_dot p v))\<bar>) / 100))"
proof -
  obtain xa ya za where p: "p = (xa, ya, za)" by (cases p) auto
  obtain xb yb zb where v: "v = (xb, yb, zb)" by (cases v) auto
  show ?thesis
    unfolding p v by (simp add: get_efficiency_coefficient_def normalized_dot_def Let_def)
qed

subsection \<open>Rounding to a double\<close>

lemma round_half_even_unique:
  assumes "\<bar>y - of_int n\<bar> < 1 / 2"
  shows "round_half_even y = n"
proof -
  have "\<lfloor>y\<rfloor> = n \<or> \<lfloor>y\<rfloor> = n - 1" using assms by linarith
  then show ?thesis
  proof
    assume f: "\<lfloor>y\<rfloor> = n"
    then have "y - of_int n < 1 / 2" using assms by linarith
    then show ?thesis by (simp add: round_half_even_def f Let_def)
  next
    assume f: "\<lfloor>y\<rfloor> = n - 1"
    have "- (1 / 2) < y - of_int n" using assms by linarith
    then have "y - of_int (n - 1) > 1 / 2" by simp
    then show ?thesis by (simp add: round_half_even_def f Let_def)
  qed
qed

lemma round_half_even_of_int [simp]: "round_half_even (of_int n) = n"
  by (rule round_half_even_unique) simp

lemma round_half_even_numeral [simp]:
  "round_half_even (numeral n) = numeral n" "round_half_even (- numeral n) = - numeral n"
  using round_half_even_of_int [of "numeral n"] round_half_even_of_int [of "- numeral n"]
  by simp_all








subsection \<open>The coefficient in double arithmetic\<close>








section \<open>Ranges of the elevation and azimuth angles\<close>

lemma elevation_argument_bounds:
  fixes a b c :: real
  shows "\<bar>sin a * sin b + cos a * cos b * cos c\<bar> \<le> 1"
proof -
  have "\<bar>sin a * sin b + cos a * (cos b * cos c) + 0 * 0\<bar>
        \<le> sqrt ((sin a)\<^sup>2 + (cos a)\<^sup>2 + 0\<^sup>2) * sqrt ((sin b)\<^sup>2 + (cos b * cos c)\<^sup>2 + 0\<^sup>2)"
    by (rule cauchy_schwarz3)
  then have 1: "\<bar>sin a * sin b + cos a * cos b * cos c\<bar> \<le> sqrt ((sin b)\<^sup>2 + (cos b * cos c)\<^sup>2)"
    by (simp add: mult.assoc)
  have "(cos c)\<^sup>2 \<le> 1" by (simp add: abs_square_le_1)
  then have "(cos b)\<^sup>2 * (cos c)\<^sup>2 \<le> (cos b)\<^sup>2 * 1"
    by (intro mult_left_mono) simp_all
  then have k: "(cos b * cos c)\<^sup>2 \<le> (cos b)\<^sup>2"
    by (simp add: power_mult_distrib)
  have "(sin b)\<^sup>2 + (cos b * cos c)\<^sup>2 \<le> 1"
    using k sin_cos_squared_add [of b] by linarith
  then have "sqrt ((sin b)\<^sup>2 + (cos b * cos c)\<^sup>2) \<le> 1"
    by (simp only: real_sqrt_le_1_iff)
  with 1 show ?thesis by linarith
qed

lemma solar_elevation_angle_bounds:
  "- (pi / 2) \<le> solar_elevation_angle latitude d_angle sh_angle"
  "solar_elevation_angle latitude d_angle sh_angle \<le> pi / 2"
proof -
  have "\<bar>sin (rad latitude) * sin d_angle + cos (rad latitude) * cos d_angle * cos sh_angle\<bar> \<le> 1"
    by (rule elevation_argument_bounds)
  then have "-1 \<le> sin (rad latitude) * sin d_angle + cos (rad latitude) * cos d_angle * cos sh_angle"
    and "sin (rad latitude) * sin d_angle + cos (rad latitude) * cos d_angle * cos sh_angle \<le> 1"
    by linarith+
  from arcsin_bounded [OF this]
  show "- (pi / 2) \<le> solar_elevation_angle latitude d_angle sh_angle"
    and "solar_elevation_angle latitude d_angle sh_angle \<le> pi / 2"
    by (simp_all add: solar_elevation_angle_def)
qed


lemma solar_azimuth_angle_deg:
  "\<exists>a. solar_azimuth_angle latitude d_angle sh_angle e_angle = Inr a
       \<and> deg a = (if deg sh_angle < 90 then - deg sh_angle - 90
                  else if deg sh_angle = 90 then 180 else 270 - deg sh_angle)"
  by (auto simp: solar_azimuth_angle_def Let_def deg_diff deg_minus)

lemma eot_bounds: "\<bar>eot y\<bar> \<le> 21"
proof -
  have c1: "\<bar>cos y\<bar> \<le> 1" and s1: "\<bar>sin y\<bar> \<le> 1"
    and c2: "\<bar>cos (2 * y)\<bar> \<le> 1" and s2: "\<bar>sin (2 * y)\<bar> \<le> 1"
    by simp_all
  define C1 where "C1 = cos y"
  define S1 where "S1 = sin y"
  define C2 where "C2 = cos (2 * y)"
  define S2 where "S2 = sin (2 * y)"
  have "\<bar>229.18 * (0.000075 + 0.001868 * C1 - 0.032077 * S1 - 0.014615 * C2 - 0.040849 * S2)\<bar> \<le> 21"
    using c1 s1 c2 s2 unfolding C1_def [symmetric] S1_def [symmetric] C2_def [symmetric] S2_def [symmetric]
    by (simp add: abs_le_iff) 
  then show ?thesis by (simp add: eot_def C1_def S1_def C2_def S2_def)
qed

lemma deg_solar_hour_angle:
  "\<exists>y. deg (solar_hour_angle time day longitude tz_offset is_leap_year)
        = (time + eot y + 4 * (longitude - 15 * tz_offset)) / 4 - 180"
  by (auto simp: solar_hour_angle_def c_lst_def Let_def)

lemma deg_solar_hour_angle_bounds:
  "time / 4 + longitude - 15 * tz_offset - 186
     \<le> deg (solar_hour_angle time day longitude tz_offset is_leap_year)"
  "deg (solar_hour_angle time day longitude tz_offset is_leap_year)
     \<le> time / 4 + longitude - 15 * tz_offset - 174"
proof -
  obtain y where y: "deg (solar_hour_angle time day longitude tz_offset is_leap_year)
        = (time + eot y + 4 * (longitude - 15 * tz_offset)) / 4 - 180"
    using deg_solar_hour_angle by blast
  have e: "- 21 \<le> eot y" "eot y \<le> 21" using eot_bounds [of y] by linarith+
  show "time / 4 + longitude - 15 * tz_offset - 186
     \<le> deg (solar_hour_angle time day longitude tz_offset is_leap_year)"
    unfolding y using e by (simp add: field_simps)
  show "deg (solar_hour_angle time day longitude tz_offset is_leap_year)
     \<le> time / 4 + longitude - 15 * tz_offset - 174"
    unfolding y using e by (simp add: field_simps)
qed


lemma solar_data_result:
  "\<exists>a. solar_data latitude longitude day time tz_offset is_leap_year
         = Inr \<lparr>data_e_angle =
                  solar_elevation_angle latitude (declination_angle day is_leap_year)
                    (solar_hour_angle time day longitude tz_offset is_leap_year),
                data_a_angle = a\<rparr>
       \<and> deg a = (if deg (solar_hour_angle time day longitude tz_offset is_leap_year) < 90
                  then - deg (solar_hour_angle time day longitude tz_offset is_leap_year) - 90
                  else if deg (solar_hour_angle time day longitude tz_offset is_leap_year) = 90
                  then 180
                  else 270 - deg (solar_hour_angle time day longitude tz_offset is_leap_year))"
proof -
  define d_angle where "d_angle = declination_angle day is_leap_year"
  define sh_angle where "sh_angle = solar_hour_angle time day longitude tz_offset is_leap_year"
  define e_angle where "e_angle = solar_elevation_angle latitude d_angle sh_angle"
  obtain a where a: "solar_azimuth_angle latitude d_angle sh_angle e_angle = Inr a"
    and da: "deg a = (if deg sh_angle < 90 then - deg sh_angle - 90
                  else if deg sh_angle = 90 then 180 else 270 - deg sh_angle)"
    using solar_azimuth_angle_deg by blast
  have "solar_data latitude longitude day time tz_offset is_leap_year
        = Inr \<lparr>data_e_angle = e_angle, data_a_angle = a\<rparr>"
    by (simp add: solar_data_def Let_def d_angle_def [symmetric] sh_angle_def [symmetric]
        e_angle_def [symmetric] a)
  with da show ?thesis unfolding e_angle_def sh_angle_def d_angle_def by blast
qed










section \<open>Hourly production\<close>

lemma foldl_production_body:
  "foldl (production_body td cc) acc es
   = acc + (\<Sum>e\<leftarrow>es. round3 (610 * 90 * e * td * (1 - cc / 100) / 1000))"
  by (induction es arbitrary: acc) (simp_all add: production_body_def Let_def mult.assoc)

lemma round3_example: "round3 (610 * 90 * 0.5 * 0.85 * 0.5 / 1000) = 11.666"
proof -
  have "\<lfloor>(46665 / 4 :: real)\<rfloor> = 11666" by linarith
  then show ?thesis by (simp add: round3_def round_half_even_def Let_def)
qed

lemma temp_drop_86: "temp_drop 86 = 17 / 20"
  by (simp add: temp_drop_def)

text \<open>
  Claim C9. \<open>calc_hourly_production\<close> returns the sum, over the minute coefficients
  \<open>e\<close> of the row, of \<open>round(610 * 90 * e * temp_drop * (1 - C / 100) / 1000, 3)\<close>,
  divided by 60, where \<open>temp_drop\<close> is 1 when \<open>(T - 32) / 1.8 \<le> 25\<close> and
  \<open>1 - 0.03 * ((T - 32) / 1.8 - 25)\<close> otherwise. For \<open>T = 86\<close>, \<open>C = 50\<close> and
  the single coefficient \<open>0.5\<close> the sum before the division is
  \<open>round(610 * 90 * 0.5 * 0.85 * 0.5 / 1000, 3)\<close>.
\<close>

theorem calc_hourly_production_formula:
  "calc_hourly_production r
     = (\<Sum>e\<leftarrow>row_efficiency_data r.
          round3 (610 * 90 * e * temp_drop (row_temperature r) * (1 - row_cloud_cover r / 100) / 1000))
       / 60
   \<and> (row_temperature r = 86 \<and> row_cloud_cover r = 50 \<and> row_efficiency_data r = [0.5]
      \<longrightarrow> calc_hourly_production r * 60 = round3 (610 * 90 * 0.5 * 0.85 * 0.5 / 1000))"
proof -
  have td: "(if (row_temperature r - 32) / 1.8 > 25
             then 1 - ((row_temperature r - 32) / 1.8 - 25) * 0.03 else 1)
            = temp_drop (row_temperature r)"
    by (simp add: temp_drop_def)
  have f: "calc_hourly_production r
     = (\<Sum>e\<leftarrow>row_efficiency_data r.
          round3 (610 * 90 * e * temp_drop (row_temperature r) * (1 - row_cloud_cover r / 100) / 1000))
       / 60"
    unfolding calc_hourly_production_def Let_def td foldl_production_body by simp
  show ?thesis using f by (simp add: temp_drop_86)
qed

theorem calc_hourly_production_formula_witness:
  "calc_hourly_production
     \<lparr>row_date = ''2010-07-01 12:00:00'', row_temperature = 86, row_cloud_cover = 50,
      row_efficiency_data = [0.5]\<rparr> * 60 = 11.666"
  using calc_hourly_production_formula
     [of "\<lparr>row_date = ''2010-07-01 12:00:00'', row_temperature = 86, row_cloud_cover = 50,
           row_efficiency_data = [0.5]\<rparr>"]
    round3_example
  by (simp add: temp_drop_86)

section \<open>The scan of a day and the year loop\<close>

subsection \<open>Loops\<close>

lemma for_each_append:
  "for_each body s (xs @ ys)
   = (case for_each body s xs of Inl err \<Rightarrow> Inl err | Inr s' \<Rightarrow> for_each body s' ys)"
  by (induction xs arbitrary: s) (auto split: sum.splits)

lemma for_each_total:
  assumes "P s" and "\<And>s x. P s \<Longrightarrow> x \<in> set xs \<Longrightarrow> \<exists>s'. body s x = Inr s' \<and> P s'"
  shows "\<exists>s'. for_each body s xs = Inr s' \<and> P s'"
  using assms
proof (induction xs arbitrary: s)
  case Nil
  then show ?case by simp
next
  case (Cons x xs)
  from Cons.prems obtain s1 where s1: "body s x = Inr s1" "P s1" by (meson list.set_intros(1))
  from Cons.IH [OF s1(2)] Cons.prems(2) obtain s' where "for_each body s1 xs = Inr s'" "P s'"
    by (meson list.set_intros(2))
  with s1 show ?case by simp
qed

lemma for_each_invariant:
  assumes "for_each body s xs = Inr s'" and "P s"
    and "\<And>s x s'. P s \<Longrightarrow> x \<in> set xs \<Longrightarrow> body s x = Inr s' \<Longrightarrow> P s'"
  shows "P s'"
  using assms
proof (induction xs arbitrary: s)
  case Nil
  then show ?case by simp
next
  case (Cons x xs)
  from Cons.prems(1) obtain s1 where s1: "body s x = Inr s1" "for_each body s1 xs = Inr s'"
    by (auto split: sum.splits)
  have "P s1" using Cons.prems(2,3) s1(1) by (meson list.set_intros(1))
  then show ?case using Cons.IH [OF s1(2)] Cons.prems(3) by (meson list.set_intros(2))
qed

subsection \<open>The scan of a day\<close>

text \<open>
  The tracker starts idle and every step of the scan leaves it idle: a valid minute
  overwrites the start of the day, and no minute writes the end of the day.
\<close>

lemma solar_data_minute:
  "solar_data lat long (of_int day) (of_int (hour * 60 + m)) (-5) False
   = Inr (minute_data lat long day hour m)"
  using solar_data_result [of lat long "of_int day" "of_int (hour * 60 + m)" "-5" False]
  unfolding minute_data_def by auto

lemma minute_body_idle:
  assumes "tracker_idle tr"
  shows "minute_body lat long day hour (hdat, tr) m
     = Inr (if valid_at lat long day hour m
            then (hdat\<lparr>angle_data := angle_data hdat @ [minute_data lat long day hour m],
                       rec_start_time := Some (fmt_time hour m)\<rparr>,
                  tr\<lparr>day_start_hour := hour, day_start_min := m\<rparr>)
            else (hdat, tr))"
  using assms unfolding minute_body_def solar_data_minute
  by (simp add: valid_at_def tracker_idle_def Let_def)

lemma start_after_Nil [simp]: "start_after s [] = s"
  by (simp add: start_after_def)

lemma start_after_Cons [simp]: "start_after s (x # vs) = start_after x vs"
  by (simp add: start_after_def)

lemma start_after_append: "start_after s (xs @ ys) = start_after (start_after s xs) ys"
  by (induction xs arbitrary: s) simp_all

lemma tracker_idle_start [simp]:
  "tracker_idle (tr\<lparr>day_start_hour := h, day_start_min := m\<rparr>) = tracker_idle tr"
  by (simp add: tracker_idle_def)

lemma tracker_idle_initial [simp]: "tracker_idle initial_tracker"
  by (simp add: tracker_idle_def initial_tracker_def)

lemma minute_loop:
  assumes "tracker_idle tr"
  shows "\<exists>hdat' tr'.
       for_each (minute_body lat long day hour) (hdat, tr) ms = Inr (hdat', tr')
     \<and> tracker_idle tr'
     \<and> rec_month hdat' = rec_month hdat \<and> rec_day hdat' = rec_day hdat
     \<and> rec_hour hdat' = rec_hour hdat
     \<and> angle_data hdat'
         = angle_data hdat
           @ map (minute_data lat long day hour) (filter (valid_at lat long day hour) ms)
     \<and> (day_start_hour tr', day_start_min tr')
         = start_after (day_start_hour tr, day_start_min tr)
             (map (Pair hour) (filter (valid_at lat long day hour) ms))"
  using assms
proof (induction ms arbitrary: hdat tr)
  case Nil
  then show ?case by simp
next
  case (Cons m ms)
  show ?case
  proof (cases "valid_at lat long day hour m")
    case True
    let ?hdat = "hdat\<lparr>angle_data := angle_data hdat @ [minute_data lat long day hour m],
                       rec_start_time := Some (fmt_time hour m)\<rparr>"
    let ?tr = "tr\<lparr>day_start_hour := hour, day_start_min := m\<rparr>"
    have step: "minute_body lat long day hour (hdat, tr) m = Inr (?hdat, ?tr)"
      using minute_body_idle [OF Cons.prems] True by simp
    have "tracker_idle ?tr" using Cons.prems by simp
    from Cons.IH [OF this, of ?hdat] show ?thesis
      using True step by auto
  next
    case False
    have step: "minute_body lat long day hour (hdat, tr) m = Inr (hdat, tr)"
      using minute_body_idle [OF Cons.prems] False by simp
    from Cons.IH [OF Cons.prems, of hdat] show ?thesis
      using False step by auto
  qed
qed

lemma filter_valid_pairs:
  "filter (\<lambda>(h, m). valid_at lat long day h m) (map (Pair hour) ms)
   = map (Pair hour) (filter (valid_at lat long day hour) ms)"
  by (induction ms) simp_all

lemma hour_body_idle:
  assumes "tracker_idle tr"
  shows "\<exists>hdat tr'.
       hour_body lat long month day_subtractor day (day_data, tr) hour
         = Inr (day_data @ [hdat], tr')
     \<and> tracker_idle tr'
     \<and> rec_month hdat = month \<and> rec_day hdat = day - day_subtractor \<and> rec_hour hdat = hour
     \<and> angle_data hdat = hour_angles lat long day hour
     \<and> (day_start_hour tr', day_start_min tr')
         = start_after (day_start_hour tr, day_start_min tr)
             (filter (\<lambda>(h, m). valid_at lat long day h m) (map (Pair hour) [0..59]))"
proof -
  let ?hdat = "\<lparr>rec_month = month, rec_day = day - day_subtractor, rec_hour = hour,
                rec_start_time = None, rec_end_time = None, angle_data = []\<rparr>"
  from minute_loop [OF assms, of lat long day hour ?hdat "[0..59]"]
  obtain hdat' tr' where
    "for_each (minute_body lat long day hour) (?hdat, tr) [0..59] = Inr (hdat', tr')"
    "tracker_idle tr'" "rec_month hdat' = month" "rec_day hdat' = day - day_subtractor"
    "rec_hour hdat' = hour" "angle_data hdat' = hour_angles lat long day hour"
    "(day_start_hour tr', day_start_min tr')
         = start_after (day_start_hour tr, day_start_min tr)
             (map (Pair hour) (filter (valid_at lat long day hour) [0..59]))"
    unfolding hour_angles_def by auto
  then show ?thesis
    unfolding hour_body_def filter_valid_pairs by (simp add: Let_def)
qed

lemma hour_loop:
  assumes "tracker_idle tr"
  shows "\<exists>day_data' tr'.
       for_each (hour_body lat long month day_subtractor day) (day_data, tr) hs
         = Inr (day_data @ day_data', tr')
     \<and> tracker_idle tr'
     \<and> map rec_hour day_data' = hs
     \<and> map angle_data day_data' = map (hour_angles lat long day) hs
     \<and> (\<forall>hdat \<in> set day_data'. rec_month hdat = month \<and> rec_day hdat = day - day_subtractor)
     \<and> (day_start_hour tr', day_start_min tr')
         = start_after (day_start_hour tr, day_start_min tr)
             (filter (\<lambda>(h, m). valid_at lat long day h m)
                (concat (map (\<lambda>h. map (Pair h) [0..59]) hs)))"
  using assms
proof (induction hs arbitrary: day_data tr)
  case Nil
  then show ?case by simp
next
  case (Cons h hs)
  from hour_body_idle [OF Cons.prems, of lat long month day_subtractor day day_data h]
  obtain hdat tr1 where 1:
    "hour_body lat long month day_subtractor day (day_data, tr) h = Inr (day_data @ [hdat], tr1)"
    "tracker_idle tr1" "rec_month hdat = month" "rec_day hdat = day - day_subtractor"
    "rec_hour hdat = h" "angle_data hdat = hour_angles lat long day h"
    "(day_start_hour tr1, day_start_min tr1)
         = start_after (day_start_hour tr, day_start_min tr)
             (filter (\<lambda>(h, m). valid_at lat long day h m) (map (Pair h) [0..59]))"
    by blast
  from Cons.IH [OF 1(2), of "day_data @ [hdat]"]
  obtain day_data' tr' where 2:
    "for_each (hour_body lat long month day_subtractor day) (day_data @ [hdat], tr1) hs
         = Inr ((day_data @ [hdat]) @ day_data', tr')"
    "tracker_idle tr'" "map rec_hour day_data' = hs"
    "map angle_data day_data' = map (hour_angles lat long day) hs"
    "\<forall>hdat \<in> set day_data'. rec_month hdat = month \<and> rec_day hdat = day - day_subtractor"
    "(day_start_hour tr', day_start_min tr')
         = start_after (day_start_hour tr1, day_start_min tr1)
             (filter (\<lambda>(h, m). valid_at lat long day h m)
                (concat (map (\<lambda>h. map (Pair h) [0..59]) hs)))"
    by blast
  have "for_each (hour_body lat long month day_subtractor day) (day_data, tr) (h # hs)
         = Inr (day_data @ (hdat # day_data'), tr')"
    using 1(1) 2(1) by simp
  moreover have "(day_start_hour tr', day_start_min tr')
         = start_after (day_start_hour tr, day_start_min tr)
             (filter (\<lambda>(h, m). valid_at lat long day h m)
                (concat (map (\<lambda>h. map (Pair h) [0..59]) (h # hs))))"
    using 1(7) 2(6) by (simp add: start_after_append)
  ultimately show ?case
    using 1(3-6) 2(2-5) by (intro exI [of _ "hdat # day_data'"] exI [of _ tr']) simp
qed

lemma scan_day_result:
  "\<exists>day_data tr.
       scan_day lat long month day_subtractor day = Inr (day_data, tr)
     \<and> tracker_idle tr
     \<and> map rec_hour day_data = [5..21]
     \<and> map angle_data day_data = map (hour_angles lat long day) [5..21]
     \<and> (\<forall>hdat \<in> set day_data. rec_month hdat = month \<and> rec_day hdat = day - day_subtractor)
     \<and> (day_start_hour tr, day_start_min tr) = start_after (0, 0) (valid_minutes lat long day)"
  using hour_loop [OF tracker_idle_initial, of lat long month day_subtractor day "[]" "[5..21]"]
  unfolding scan_day_def valid_minutes_def day_minutes_def
  by (simp add: initial_tracker_def)

subsection \<open>The coefficients of a day\<close>

text \<open>
  A coefficient that is returned is in range, whatever the vectors; and against the
  panel normal of the program no valid minute raises, because the elevation of a valid
  minute is between 0 and 90 degrees and the dot product is then not negative.
\<close>

lemma get_efficiency_coefficient_range:
  assumes "get_efficiency_coefficient p v = Inr k"
  shows "in_unit_range k"
  using assms unfolding get_efficiency_coefficient_alt in_unit_range_def
  by (auto split: if_splits)

lemma get_efficiency_coefficient_returns:
  assumes "0 \<le> normalized_dot p v"
  shows "\<exists>k. get_efficiency_coefficient p v = Inr k"
proof -
  have "deg (arccos (normalized_dot p v)) \<le> 90" "0 \<le> deg (arccos (normalized_dot p v))"
    using deg_arccos_bounds [OF normalized_dot_abs_le_1 [of p v]] assms by auto
  then have "get_efficiency_coefficient p v
             = Inr ((90 - \<bar>deg (arccos (normalized_dot p v))\<bar>) / 100)"
    unfolding get_efficiency_coefficient_alt by simp
  then show ?thesis by blast
qed

lemma cos_sin_45_nonneg: "0 \<le> cos (rad 45)" "0 \<le> sin (rad 45)"
proof -
  have r: "rad 45 = pi / 4" by (simp add: rad_def)
  show "0 \<le> cos (rad 45)" "0 \<le> sin (rad 45)"
    unfolding r by (simp_all add: cos_45 sin_45)
qed

lemma panel_dot_nonneg:
  assumes "0 \<le> e" "e \<le> pi / 2"
  shows "0 \<le> normalized_dot (0, - cos (rad 45), sin (rad 45)) (get_solar_vector e a)"
proof -
  define q where "q = ((sin e)\<^sup>2 * (cos a)\<^sup>2) / ((cos a)\<^sup>2 + (sin e)\<^sup>2 * (cos a)\<^sup>2)"
  have q: "0 \<le> q" "q \<le> 1" unfolding q_def by (rule solar_quotient_bounds)+
  have v: "get_solar_vector e a = (sqrt q, - cos e * sqrt (1 - q), sin e * sqrt (1 - q))"
    by (simp add: get_solar_vector_def Let_def q_def)
  have ce: "0 \<le> cos e" using assms by (intro cos_ge_zero) linarith+
  have se: "0 \<le> sin e" using assms pi_ge_two by (intro sin_ge_zero) linarith+
  have s: "0 \<le> sqrt (1 - q)" using q by simp
  have "0 * sqrt q + - cos (rad 45) * (- cos e * sqrt (1 - q)) + sin (rad 45) * (sin e * sqrt (1 - q))
        = cos (rad 45) * (cos e * sqrt (1 - q)) + sin (rad 45) * (sin e * sqrt (1 - q))"
    by simp
  moreover have "0 \<le> cos (rad 45) * (cos e * sqrt (1 - q)) + sin (rad 45) * (sin e * sqrt (1 - q))"
    using ce se s cos_sin_45_nonneg by (intro add_nonneg_nonneg mult_nonneg_nonneg)
  ultimately have "0 \<le> 0 * sqrt q + - cos (rad 45) * (- cos e * sqrt (1 - q))
                       + sin (rad 45) * (sin e * sqrt (1 - q))"
    by simp
  then show ?thesis
    unfolding v normalized_dot_def prod.case
    by (intro divide_nonneg_nonneg mult_nonneg_nonneg real_sqrt_ge_zero) simp_all
qed

lemma minute_data_elevation:
  "\<exists>d sh. data_e_angle (minute_data lat long day hour m) = solar_elevation_angle lat d sh"
proof -
  obtain a where sd: "solar_data lat long (of_int day) (of_int (hour * 60 + m)) (-5) False
         = Inr \<lparr>data_e_angle =
                  solar_elevation_angle lat (declination_angle (of_int day) False)
                    (solar_hour_angle (of_int (hour * 60 + m)) (of_int day) long (-5) False),
                data_a_angle = a\<rparr>"
    using solar_data_result [of lat long "of_int day" "of_int (hour * 60 + m)" "-5" False]
    by blast
  have "data_e_angle (minute_data lat long day hour m)
        = solar_elevation_angle lat (declination_angle (of_int day) False)
            (solar_hour_angle (of_int (hour * 60 + m)) (of_int day) long (-5) False)"
    unfolding minute_data_def sd by simp
  then show ?thesis by blast
qed

lemma valid_at_sun_up:
  assumes "valid_at lat long day hour m"
  shows "sun_up (minute_data lat long day hour m)"
proof -
  obtain d sh where e: "data_e_angle (minute_data lat long day hour m) = solar_elevation_angle lat d sh"
    using minute_data_elevation by blast
  have "0 \<le> deg (data_e_angle (minute_data lat long day hour m))"
    using assms by (simp add: valid_at_def minute_valid_def)
  then have "0 \<le> data_e_angle (minute_data lat long day hour m)"
    by (simp add: le_deg_iff rad_def)
  then show ?thesis
    using solar_elevation_angle_bounds(2) [of lat d sh] by (simp add: sun_up_def e)
qed

lemma hour_angles_sun_up: "\<forall>ad \<in> set (hour_angles lat long day hour). sun_up ad"
  by (auto simp: hour_angles_def valid_at_sun_up)

lemma coefficient_body_select:
  "coefficient_body wn sn w
   = coefficient_body (if w then wn else sn) (if w then wn else sn) True"
  by (cases w) (simp_all add: coefficient_body_def fun_eq_iff)

lemma efficiency_body_select:
  "efficiency_body wn sn w
   = efficiency_body (if w then wn else sn) (if w then wn else sn) True"
  by (intro ext) (simp only: efficiency_body_def coefficient_body_select [of wn sn w])

lemma toggle_eq: "toggle w h = (if h = 12 then \<not> w else w)"
  by (simp add: toggle_def)

lemma coefficient_body_Inr:
  assumes "coefficient_body wn sn w ks ad = Inr ks'"
  shows "\<exists>k. ks' = ks @ [k] \<and> in_unit_range k"
  using assms unfolding coefficient_body_def Let_def
  by (auto split: if_splits sum.splits dest: get_efficiency_coefficient_range)

lemma coefficient_loop_range:
  assumes "for_each (coefficient_body wn sn w) ks ads = Inr ks'"
    and "\<forall>k \<in> set ks. in_unit_range k"
  shows "\<forall>k \<in> set ks'. in_unit_range k"
proof (rule for_each_invariant [OF assms(1), where P = "\<lambda>ks. \<forall>k \<in> set ks. in_unit_range k"])
  show "\<forall>k \<in> set ks. in_unit_range k" by (rule assms(2))
next
  fix s x s'
  assume "\<forall>k \<in> set s. in_unit_range k" and "coefficient_body wn sn w s x = Inr s'"
  then show "\<forall>k \<in> set s'. in_unit_range k"
    using coefficient_body_Inr by fastforce
qed

lemma efficiency_body_Inr:
  assumes "efficiency_body wn sn w recs hdat = Inr recs'"
  shows "\<exists>r. recs' = recs @ [r] \<and> rec_hour r = rec_hour hdat
            \<and> rec_month r = rec_month hdat \<and> rec_day r = rec_day hdat
            \<and> (\<forall>k \<in> set (efficiency_data r). in_unit_range k)"
proof -
  from assms obtain ks where ks: "for_each (coefficient_body wn sn w) [] (angle_data hdat) = Inr ks"
    and r: "recs' = recs @ [\<lparr>rec_month = rec_month hdat, rec_day = rec_day hdat,
                        rec_hour = rec_hour hdat, rec_start_time = rec_start_time hdat,
                        rec_end_time = rec_end_time hdat, efficiency_data = ks\<rparr>]"
    unfolding efficiency_body_def by (auto split: sum.splits)
  have "\<forall>k \<in> set ks. in_unit_range k"
    using coefficient_loop_range [OF ks] by simp
  then show ?thesis using r by simp
qed

lemma records_in_range_Nil [simp]: "records_in_range []"
  by (simp add: records_in_range_def)

lemma records_in_range_append [simp]:
  "records_in_range (xs @ ys) \<longleftrightarrow> records_in_range xs \<and> records_in_range ys"
  by (auto simp: records_in_range_def)

lemma efficiency_loop_shape:
  assumes "for_each (efficiency_body wn sn w) recs day_data = Inr recs'"
  shows "\<exists>new. recs' = recs @ new \<and> map rec_hour new = map rec_hour day_data
               \<and> records_in_range new"
  using assms
proof (induction day_data arbitrary: recs)
  case Nil
  then show ?case by simp
next
  case (Cons hdat day_data)
  from Cons.prems obtain recs1 where 1: "efficiency_body wn sn w recs hdat = Inr recs1"
    and 2: "for_each (efficiency_body wn sn w) recs1 day_data = Inr recs'"
    by (auto split: sum.splits)
  from efficiency_body_Inr [OF 1] obtain r where r: "recs1 = recs @ [r]"
    "rec_hour r = rec_hour hdat" "\<forall>k \<in> set (efficiency_data r). in_unit_range k" by blast
  from Cons.IH [OF 2] obtain new where new: "recs' = recs1 @ new"
    "map rec_hour new = map rec_hour day_data" "records_in_range new" by blast
  show ?case
    using r new by (intro exI [of _ "r # new"]) (simp add: records_in_range_def)
qed

lemma coefficient_loop_total:
  assumes "\<forall>ad \<in> set ads. sun_up ad"
  shows "\<exists>ks'. for_each (coefficient_body (0, - cos (rad 45), sin (rad 45))
                          (0, - cos (rad 45), sin (rad 45)) w) ks ads = Inr ks'"
proof (rule exE [OF for_each_total [where P = "\<lambda>_. True" and xs = ads and s = ks
          and body = "coefficient_body (0, - cos (rad 45), sin (rad 45))
                          (0, - cos (rad 45), sin (rad 45)) w"]])
  show True ..
next
  fix s x
  assume "x \<in> set ads"
  then have "sun_up x" using assms by blast
  then obtain k where
    "get_efficiency_coefficient (0, - cos (rad 45), sin (rad 45))
       (get_solar_vector (data_e_angle x) (data_a_angle x)) = Inr k"
    using get_efficiency_coefficient_returns [OF panel_dot_nonneg] unfolding sun_up_def by blast
  then show "\<exists>s'. coefficient_body (0, - cos (rad 45), sin (rad 45))
                          (0, - cos (rad 45), sin (rad 45)) w s x = Inr s' \<and> True"
    by (simp add: coefficient_body_def Let_def)
next
  fix s'
  assume "for_each (coefficient_body (0, - cos (rad 45), sin (rad 45))
                          (0, - cos (rad 45), sin (rad 45)) w) ks ads = Inr s' \<and> True"
  then show ?thesis by blast
qed

lemma efficiency_loop_total:
  assumes "\<forall>hdat \<in> set day_data. \<forall>ad \<in> set (angle_data hdat). sun_up ad"
  shows "\<exists>recs'. for_each (efficiency_body (0, - cos (rad 45), sin (rad 45))
                          (0, - cos (rad 45), sin (rad 45)) w) recs day_data = Inr recs'"
proof (rule exE [OF for_each_total [where P = "\<lambda>_. True" and xs = day_data and s = recs
          and body = "efficiency_body (0, - cos (rad 45), sin (rad 45))
                          (0, - cos (rad 45), sin (rad 45)) w"]])
  show True ..
next
  fix s x
  assume "x \<in> set day_data"
  then have "\<forall>ad \<in> set (angle_data x). sun_up ad" using assms by blast
  from coefficient_loop_total [OF this, of w "[]"]
  show "\<exists>s'. efficiency_body (0, - cos (rad 45), sin (rad 45))
                          (0, - cos (rad 45), sin (rad 45)) w s x = Inr s' \<and> True"
    by (auto simp: efficiency_body_def)
next
  fix s'
  assume "for_each (efficiency_body (0, - cos (rad 45), sin (rad 45))
                          (0, - cos (rad 45), sin (rad 45)) w) recs day_data = Inr s' \<and> True"
  then show ?thesis by blast
qed

subsection \<open>One day and the loop over the days\<close>

lemma tracker_idle_eq:
  assumes "tracker_idle tr" "tracker_idle tr'"
    and "(day_start_hour tr, day_start_min tr) = (day_start_hour tr', day_start_min tr')"
  shows "tr = tr'"
  using assms by (intro tracker.equality) (simp_all add: tracker_idle_def)

lemma scan_day_day_hr:
  assumes "scan_day lat long month day_subtractor day = Inr (day_data, tr)"
  shows "fst (day_duration tr) = day_hr lat long day"
proof -
  from scan_day_result [of lat long month day_subtractor day] assms
  have 1: "tracker_idle tr"
    "(day_start_hour tr, day_start_min tr) = start_after (0, 0) (valid_minutes lat long day)"
    by auto
  from scan_day_result [of lat long "[]" 0 day]
  obtain day_data0 tr0 where 0: "scan_day lat long [] 0 day = Inr (day_data0, tr0)"
    "tracker_idle tr0"
    "(day_start_hour tr0, day_start_min tr0) = start_after (0, 0) (valid_minutes lat long day)"
    by blast
  have "tr = tr0" using 1 0(2,3) by (intro tracker_idle_eq) simp_all
  then show ?thesis by (simp add: day_hr_def 0(1))
qed

lemma day_body_result:
  assumes "calendar day cal = Some (month, day_subtractor)"
  shows "\<exists>day_data tr.
       scan_day lat long month day_subtractor day = Inr (day_data, tr)
     \<and> map rec_hour day_data = [5..21]
     \<and> (\<forall>hdat \<in> set day_data. \<forall>ad \<in> set (angle_data hdat). sun_up ad)
     \<and> day_body wn sn lat long calendar (w, cal, year_data) day
       = (case records_with (if toggle w (day_hr lat long day) then wn else sn) day_data of
            Inl err \<Rightarrow> Inl err
          | Inr day_records \<Rightarrow>
              Inr (toggle w (day_hr lat long day), Some (month, day_subtractor),
                   year_data @ day_records))"
proof -
  from scan_day_result [of lat long month day_subtractor day]
  obtain day_data tr where sd: "scan_day lat long month day_subtractor day = Inr (day_data, tr)"
    and hrs: "map rec_hour day_data = [5..21]"
    and ang: "map angle_data day_data = map (hour_angles lat long day) [5..21]"
    by blast
  have up: "\<forall>hdat \<in> set day_data. \<forall>ad \<in> set (angle_data hdat). sun_up ad"
  proof
    fix hdat assume "hdat \<in> set day_data"
    then have "angle_data hdat \<in> set (map angle_data day_data)" by simp
    then obtain h where "angle_data hdat = hour_angles lat long day h"
      unfolding ang by auto
    then show "\<forall>ad \<in> set (angle_data hdat). sun_up ad"
      using hour_angles_sun_up by simp
  qed
  obtain day_hr' day_min where dd: "day_duration tr = (day_hr', day_min)"
    by (cases "day_duration tr") auto
  have dh: "day_hr' = day_hr lat long day"
    using scan_day_day_hr [OF sd] dd by simp
  have "day_body wn sn lat long calendar (w, cal, year_data) day
       = (case for_each (efficiency_body wn sn (toggle w (day_hr lat long day))) [] day_data of
            Inl err \<Rightarrow> Inl err
          | Inr day_records \<Rightarrow>
              Inr (toggle w (day_hr lat long day), Some (month, day_subtractor),
                   year_data @ day_records))"
    by (simp add: day_body_def assms sd dd dh Let_def split: sum.splits)
  then show ?thesis
    using sd hrs up
    unfolding records_with_def efficiency_body_select [of wn sn "toggle w (day_hr lat long day)"]
    by blast
qed

lemma day_body_Inr:
  assumes "day_body wn sn lat long calendar (w, cal, year_data) day = Inr s'"
  shows "\<exists>month day_subtractor day_data tr day_records.
       calendar day cal = Some (month, day_subtractor)
     \<and> scan_day lat long month day_subtractor day = Inr (day_data, tr)
     \<and> records_with (if toggle w (day_hr lat long day) then wn else sn) day_data = Inr day_records
     \<and> s' = (toggle w (day_hr lat long day), Some (month, day_subtractor), year_data @ day_records)
     \<and> map rec_hour day_records = [5..21]
     \<and> records_in_range day_records"
proof -
  from assms obtain month day_subtractor where c: "calendar day cal = Some (month, day_subtractor)"
    unfolding day_body_def by (auto simp: Let_def split: option.splits)
  from day_body_result
    [where calendar = calendar and day = day and cal = cal and lat = lat and long = long
       and wn = wn and sn = sn and w = w and year_data = year_data, OF c]
  obtain day_data tr where sd: "scan_day lat long month day_subtractor day = Inr (day_data, tr)"
    and hrs: "map rec_hour day_data = [5..21]"
    and db: "day_body wn sn lat long calendar (w, cal, year_data) day
       = (case records_with (if toggle w (day_hr lat long day) then wn else sn) day_data of
            Inl err \<Rightarrow> Inl err
          | Inr day_records \<Rightarrow>
              Inr (toggle w (day_hr lat long day), Some (month, day_subtractor),
                   year_data @ day_records))"
    by blast
  from assms db obtain day_records where
    rw: "records_with (if toggle w (day_hr lat long day) then wn else sn) day_data = Inr day_records"
    and s': "s' = (toggle w (day_hr lat long day), Some (month, day_subtractor),
                   year_data @ day_records)"
    by (auto split: sum.splits)
  from efficiency_loop_shape [OF rw [unfolded records_with_def]]
  have "map rec_hour day_records = map rec_hour day_data" "records_in_range day_records"
    by auto
  with c sd rw s' hrs show ?thesis by auto
qed

lemma year_loop_shape:
  assumes "for_each (day_body wn sn lat long calendar) (w, cal, year_data) days
           = Inr (w', cal', year_data')"
  shows "\<exists>new. year_data' = year_data @ new
       \<and> map rec_hour new = concat (map (\<lambda>d. [5..21]) days)
       \<and> records_in_range new
       \<and> w' = (w = even (length (toggle_days lat long days)))"
  using assms
proof (induction days arbitrary: w cal year_data)
  case Nil
  then show ?case by (simp add: toggle_days_def)
next
  case (Cons d days)
  from Cons.prems obtain s1 where 1: "day_body wn sn lat long calendar (w, cal, year_data) d = Inr s1"
    and 2: "for_each (day_body wn sn lat long calendar) s1 days = Inr (w', cal', year_data')"
    by (auto split: sum.splits)
  from day_body_Inr [OF 1] obtain c1 day_records where
    s1: "s1 = (toggle w (day_hr lat long d), c1, year_data @ day_records)"
    and dr: "map rec_hour day_records = [5..21]" "records_in_range day_records"
    by blast
  from Cons.IH [OF 2 [unfolded s1]] obtain new where new:
    "year_data' = (year_data @ day_records) @ new"
    "map rec_hour new = concat (map (\<lambda>d. [5..21]) days)"
    "records_in_range new"
    "w' = (toggle w (day_hr lat long d) = even (length (toggle_days lat long days)))"
    by blast
  have "w' = (w = even (length (toggle_days lat long (d # days))))"
    using new(4) by (auto simp: toggle_eq toggle_days_def)
  then show ?case
    using new(1-3) dr by (intro exI [of _ "day_records @ new"]) simp
qed

lemma year_loop_total:
  assumes "\<forall>d \<in> set days. \<forall>prev. calendar d prev \<noteq> None"
  shows "\<exists>s'. for_each (day_body (0, - cos (rad 45), sin (rad 45))
                         (0, - cos (rad 45), sin (rad 45)) lat long calendar) s days = Inr s'"
proof (rule exE [OF for_each_total [where P = "\<lambda>_. True" and xs = days and s = s
          and body = "day_body (0, - cos (rad 45), sin (rad 45))
                         (0, - cos (rad 45), sin (rad 45)) lat long calendar"]])
  show True ..
next
  fix st :: "bool \<times> (string \<times> int) option \<times> hour_record list" and d
  assume d: "d \<in> set days"
  obtain w cal year_data where st: "st = (w, cal, year_data)" by (cases st) auto
  from d assms obtain month day_subtractor where c: "calendar d cal = Some (month, day_subtractor)"
    by fastforce
  from day_body_result
    [where calendar = calendar and day = d and cal = cal and lat = lat and long = long
       and wn = "(0, - cos (rad 45), sin (rad 45))" and sn = "(0, - cos (rad 45), sin (rad 45))"
       and w = w and year_data = year_data, OF c]
  obtain day_data where
    up: "\<forall>hdat \<in> set day_data. \<forall>ad \<in> set (angle_data hdat). sun_up ad"
    and db: "day_body (0, - cos (rad 45), sin (rad 45)) (0, - cos (rad 45), sin (rad 45))
               lat long calendar (w, cal, year_data) d
       = (case records_with (0, - cos (rad 45), sin (rad 45)) day_data of
            Inl err \<Rightarrow> Inl err
          | Inr day_records \<Rightarrow>
              Inr (toggle w (day_hr lat long d), Some (month, day_subtractor),
                   year_data @ day_records))"
    by auto
  from efficiency_loop_total [OF up, of True "[]"]
  obtain day_records where "records_with (0, - cos (rad 45), sin (rad 45)) day_data = Inr day_records"
    unfolding records_with_def by blast
  then show "\<exists>s'. day_body (0, - cos (rad 45), sin (rad 45)) (0, - cos (rad 45), sin (rad 45))
               lat long calendar st d = Inr s' \<and> True"
    unfolding st db by simp
next
  fix s'
  assume "for_each (day_body (0, - cos (rad 45), sin (rad 45))
                         (0, - cos (rad 45), sin (rad 45)) lat long calendar) s days = Inr s' \<and> True"
  then show ?thesis by blast
qed

lemma regular_calendar_total: "\<forall>d \<in> set [0..364]. \<forall>prev. regular_calendar d prev \<noteq> None"
  by (auto simp: regular_calendar_def)

lemma leap_calendar_total: "\<forall>d \<in> set [0..365]. \<forall>prev. leap_calendar d prev \<noteq> None"
  by (auto simp: leap_calendar_def)

lemma fetch_solar_data_result:
  "\<exists>w1 cal1 regular_data w2 cal2 leap_year_data.
      for_each (day_body (0, - cos (rad 45), sin (rad 45)) (0, - cos (rad 45), sin (rad 45))
                  lat long regular_calendar) (True, None, []) [0..364]
        = Inr (w1, cal1, regular_data)
    \<and> for_each (day_body (0, - cos (rad 45), sin (rad 45)) (0, - cos (rad 45), sin (rad 45))
                  lat long leap_calendar) (True, cal1, []) [0..365]
        = Inr (w2, cal2, leap_year_data)
    \<and> fetch_solar_data lat long = Inr (regular_data, leap_year_data)"
proof -
  obtain w1 cal1 regular_data where 1:
    "for_each (day_body (0, - cos (rad 45), sin (rad 45)) (0, - cos (rad 45), sin (rad 45))
                  lat long regular_calendar) (True, None, []) [0..364]
        = Inr (w1, cal1, regular_data)"
    using year_loop_total [OF regular_calendar_total, of lat long "(True, None, [])"]
    by (metis prod_cases3)
  obtain w2 cal2 leap_year_data where 2:
    "for_each (day_body (0, - cos (rad 45), sin (rad 45)) (0, - cos (rad 45), sin (rad 45))
                  lat long leap_calendar) (True, cal1, []) [0..365]
        = Inr (w2, cal2, leap_year_data)"
    using year_loop_total [OF leap_calendar_total, of lat long "(True, cal1, [])"]
    by (metis prod_cases3)
  have "fetch_solar_data lat long = Inr (regular_data, leap_year_data)"
    unfolding fetch_solar_data_def Let_def 1 by (simp add: 2)
  with 1 2 show ?thesis by blast
qed

subsection \<open>Start and end of the day\<close>

lemma declination_angle_bounds:
  "- (pi / 2) \<le> declination_angle day is_leap_year" "declination_angle day is_leap_year \<le> pi / 2"
proof -
  define y where "y = sin (rad (-23.44)) * cos (rad (
          360 / (if is_leap_year then 366 else 365) * (day + 10)
          + 360 / pi * 0.0167 * sin (rad (360 / (if is_leap_year then 366 else 365) * (day - 2)))))"
  have "\<bar>y\<bar> \<le> 1 * 1" unfolding y_def abs_mult
    by (intro mult_mono) simp_all
  then have "-1 \<le> y" "y \<le> 1" by auto
  from arcsin_bounded [OF this]
  show "- (pi / 2) \<le> declination_angle day is_leap_year"
    "declination_angle day is_leap_year \<le> pi / 2"
    by (simp_all add: declination_angle_def Let_def y_def)
qed

lemma equator_elevation_nonneg:
  assumes "- (pi / 2) \<le> sh" "sh \<le> pi / 2"
  shows "0 \<le> solar_elevation_angle 0 (declination_angle day is_leap_year) sh"
proof -
  have d: "0 \<le> cos (declination_angle day is_leap_year)"
    using declination_angle_bounds [of day is_leap_year] by (intro cos_ge_zero)
  have s: "0 \<le> cos sh" using assms by (intro cos_ge_zero)
  have 0: "0 \<le> cos (declination_angle day is_leap_year) * cos sh"
    using d s by simp
  have "cos (declination_angle day is_leap_year) * cos sh \<le> 1 * 1"
    using d s by (intro mult_mono) simp_all
  then have 1: "cos (declination_angle day is_leap_year) * cos sh \<le> 1" by simp
  have "arcsin 0 \<le> arcsin (cos (declination_angle day is_leap_year) * cos sh)"
    using 0 1 by (intro arcsin_le_arcsin) simp_all
  then show ?thesis by (simp add: solar_elevation_angle_def rad_def)
qed

lemma valid_at_equator_midday:
  assumes "0 \<le> m" "m \<le> 59"
  shows "valid_at 0 (-75) day 12 m"
proof -
  define t :: real where "t = of_int (12 * 60 + m)"
  define sh where "sh = solar_hour_angle t (of_int day) (-75) (-5) False"
  have t: "720 \<le> t" "t \<le> 779" using assms unfolding t_def by simp_all
  obtain a where sd: "solar_data 0 (-75) (of_int day) t (-5) False
         = Inr \<lparr>data_e_angle = solar_elevation_angle 0 (declination_angle (of_int day) False) sh,
                data_a_angle = a\<rparr>"
    and da: "deg a = (if deg sh < 90 then - deg sh - 90
                  else if deg sh = 90 then 180 else 270 - deg sh)"
    using solar_data_result [of 0 "-75" "of_int day" t "-5" False]
    unfolding sh_def by blast
  have b: "-6 \<le> deg sh" "deg sh \<le> 21"
    using t deg_solar_hour_angle_bounds
      [where time = t and longitude = "-75" and tz_offset = "-5"
         and day = "of_int day" and is_leap_year = False]
    unfolding sh_def by linarith+
  have "rad (-90) \<le> sh" "sh \<le> rad 90"
    using b by (simp_all add: le_deg_iff [symmetric] deg_le_iff [symmetric])
  then have "- (pi / 2) \<le> sh" "sh \<le> pi / 2" by (simp_all add: rad_def)
  from equator_elevation_nonneg [OF this, of "of_int day" False]
  have e: "0 \<le> deg (solar_elevation_angle 0 (declination_angle (of_int day) False) sh)"
    by (simp add: le_deg_iff rad_def)
  have az: "deg a < 0" "- 180 < deg a" using b by (simp_all add: da)
  show ?thesis
    unfolding valid_at_def minute_data_def t_def [symmetric] sd
    using e az by (simp add: minute_valid_def)
qed

lemma distinct_day_minutes: "distinct day_minutes"
  unfolding day_minutes_def
proof (rule distinct_concat)
  show "distinct (map (\<lambda>h. map (Pair h) [0..59]) [5..21])"
    by (auto simp: distinct_map intro!: inj_onI)
next
  fix ys assume "ys \<in> set (map (\<lambda>h. map (Pair h) [0..59]) [5..21])"
  then show "distinct ys" by (auto simp: distinct_map intro!: inj_onI)
next
  fix ys zs
  assume "ys \<in> set (map (\<lambda>h. map (Pair h) [0..59]) [5..21])"
    "zs \<in> set (map (\<lambda>h. map (Pair h) [0..59]) [5..21])" "ys \<noteq> zs"
  then show "set ys \<inter> set zs = {}" by auto
qed

lemma distinct_valid_minutes: "distinct (valid_minutes lat long day)"
  by (simp add: valid_minutes_def distinct_day_minutes)

lemma midday_in_day_minutes:
  assumes "0 \<le> m" "m \<le> 59"
  shows "(12, m) \<in> set day_minutes"
  using assms by (auto simp: day_minutes_def)

lemma hd_neq_last:
  assumes "distinct xs" "a \<in> set xs" "b \<in> set xs" "a \<noteq> b"
  shows "hd xs \<noteq> last xs"
proof (cases xs)
  case Nil
  with assms show ?thesis by simp
next
  case (Cons x ys)
  with assms have "ys \<noteq> []" by auto
  then have "last xs \<in> set ys" using Cons by simp
  with assms(1) Cons show ?thesis by auto
qed

lemma valid_minutes_hours:
  assumes "(h, m) \<in> set (valid_minutes lat long day)"
  shows "5 \<le> h"
  using assms by (auto simp: valid_minutes_def day_minutes_def)

text \<open>
  Claim C1 says that the start of the day is its first valid minute and the end of the
  day its last valid minute. The scan never sets \<open>has_started\<close>, so the start is
  overwritten by every valid minute and the end is never written: by
  \<open>scan_day_result\<close> the start is the last valid minute (or 00:00 when there is
  none) and the end stays 00:00, for every input. At latitude 0 and longitude \<open>-75\<close>
  the minutes 12:00 and 12:01 of day 0 are both valid; the start recorded is the last
  valid minute and not the first, and the end recorded is 00:00 and not the last valid
  minute.
\<close>

theorem scan_day_start_end_at_equator:
  "\<exists>day_data tr.
       scan_day 0 (-75) ''01'' (-1) 0 = Inr (day_data, tr)
     \<and> (12, 0) \<in> set (valid_minutes 0 (-75) 0)
     \<and> (12, 1) \<in> set (valid_minutes 0 (-75) 0)
     \<and> (day_start_hour tr, day_start_min tr) = last (valid_minutes 0 (-75) 0)
     \<and> (day_start_hour tr, day_start_min tr) \<noteq> hd (valid_minutes 0 (-75) 0)
     \<and> \<not> has_started tr
     \<and> (day_end_hour tr, day_end_min tr) = (0, 0)
     \<and> (day_end_hour tr, day_end_min tr) \<noteq> last (valid_minutes 0 (-75) 0)"
proof -
  from scan_day_result [of 0 "-75" "''01''" "-1" 0]
  obtain day_data tr where sd: "scan_day 0 (-75) ''01'' (-1) 0 = Inr (day_data, tr)"
    and idle: "tracker_idle tr"
    and start: "(day_start_hour tr, day_start_min tr) = start_after (0, 0) (valid_minutes 0 (-75) 0)"
    by blast
  have v0: "(12, 0) \<in> set (valid_minutes 0 (-75) 0)"
    using valid_at_equator_midday [of 0 0] midday_in_day_minutes [of 0]
    by (simp add: valid_minutes_def)
  have v1: "(12, 1) \<in> set (valid_minutes 0 (-75) 0)"
    using valid_at_equator_midday [of 1 0] midday_in_day_minutes [of 1]
    by (simp add: valid_minutes_def)
  have ne: "valid_minutes 0 (-75) 0 \<noteq> []" using v0 by auto
  have s: "(day_start_hour tr, day_start_min tr) = last (valid_minutes 0 (-75) 0)"
    using start ne by (simp add: start_after_def)
  have hl: "hd (valid_minutes 0 (-75) 0) \<noteq> last (valid_minutes 0 (-75) 0)"
    by (rule hd_neq_last [OF distinct_valid_minutes v0 v1]) simp
  have "last (valid_minutes 0 (-75) 0) \<in> set (valid_minutes 0 (-75) 0)"
    using ne by simp
  then have "5 \<le> fst (last (valid_minutes 0 (-75) 0))"
    using valid_minutes_hours [of "fst (last (valid_minutes 0 (-75) 0))"
        "snd (last (valid_minutes 0 (-75) 0))" 0 "-75" 0] by simp
  then have e: "(0, 0) \<noteq> last (valid_minutes 0 (-75) 0)"
    by (metis fst_conv not_numeral_le_zero)
  show ?thesis
    using sd v0 v1 s hl e idle by (auto simp: tracker_idle_def)
qed

section \<open>The records of a year\<close>

lemma concat_const_hours:
  "concat (map (\<lambda>d. [5..21]) (days :: int list)) = concat (replicate (length days) [5..21])"
  by (simp add: map_replicate_const)

lemma length_concat_replicate: "length (concat (replicate n xs)) = n * length xs"
  by (induction n) simp_all

lemma length_year:
  "length ([0..364] :: int list) = 365" "length ([0..365] :: int list) = 366"
  "length ([5..21] :: int list) = 17"
  by (simp_all only: length_upto)

lemma fetch_solar_data_shape:
  "\<exists>regular_data leap_year_data.
      fetch_solar_data lat long = Inr (regular_data, leap_year_data)
    \<and> map rec_hour regular_data = concat (replicate 365 [5..21])
    \<and> map rec_hour leap_year_data = concat (replicate 366 [5..21])
    \<and> records_in_range regular_data \<and> records_in_range leap_year_data"
proof -
  from fetch_solar_data_result [of lat long]
  obtain w1 cal1 regular_data w2 cal2 leap_year_data where
    1: "for_each (day_body (0, - cos (rad 45), sin (rad 45)) (0, - cos (rad 45), sin (rad 45))
                  lat long regular_calendar) (True, None, []) [0..364]
        = Inr (w1, cal1, regular_data)"
    and 2: "for_each (day_body (0, - cos (rad 45), sin (rad 45)) (0, - cos (rad 45), sin (rad 45))
                  lat long leap_calendar) (True, cal1, []) [0..365]
        = Inr (w2, cal2, leap_year_data)"
    and f: "fetch_solar_data lat long = Inr (regular_data, leap_year_data)"
    by blast
  from year_loop_shape [OF 1] obtain new1 where n1: "regular_data = [] @ new1"
    "map rec_hour new1 = concat (map (\<lambda>d. [5..21]) [0..364])" "records_in_range new1"
    by blast
  have r: "map rec_hour regular_data = concat (replicate 365 [5..21])"
    "records_in_range regular_data"
    unfolding n1(1) append_Nil n1(2) concat_const_hours length_year
    by (rule refl, rule n1(3))
  from year_loop_shape [OF 2] obtain new2 where n2: "leap_year_data = [] @ new2"
    "map rec_hour new2 = concat (map (\<lambda>d. [5..21]) [0..365])" "records_in_range new2"
    by blast
  have l: "map rec_hour leap_year_data = concat (replicate 366 [5..21])"
    "records_in_range leap_year_data"
    unfolding n2(1) append_Nil n2(2) concat_const_hours length_year
    by (rule refl, rule n2(3))
  from f r l show ?thesis by blast
qed

text \<open>
  Claim C7. \<open>fetch_solar_data\<close> returns, for every latitude and longitude, and what it
  returns is two sequences: 365 * 17 records for the regular year and 366 * 17 for the
  leap year, the hours of the records of each day running from 5 to 21.
\<close>

theorem fetch_solar_data_lengths:
  "\<exists>regular_data leap_year_data.
      fetch_solar_data lat long = Inr (regular_data, leap_year_data)
    \<and> length regular_data = 365 * 17
    \<and> length leap_year_data = 366 * 17
    \<and> map rec_hour regular_data = concat (replicate 365 [5..21])
    \<and> map rec_hour leap_year_data = concat (replicate 366 [5..21])"
proof -
  from fetch_solar_data_shape [of lat long]
  obtain regular_data leap_year_data where
    f: "fetch_solar_data lat long = Inr (regular_data, leap_year_data)"
    and r: "map rec_hour regular_data = concat (replicate 365 [5..21])"
    and l: "map rec_hour leap_year_data = concat (replicate 366 [5..21])"
    by blast
  have "length (map rec_hour regular_data) = 365 * 17"
    unfolding r length_concat_replicate length_year by (rule refl)
  moreover have "length (map rec_hour leap_year_data) = 366 * 17"
    unfolding l length_concat_replicate length_year by (rule refl)
  ultimately have "length regular_data = 365 * 17" "length leap_year_data = 366 * 17"
    by (simp_all only: length_map)
  with f r l show ?thesis by blast
qed

theorem fetch_solar_data_lengths_witness:
  "\<exists>regular_data leap_year_data.
      fetch_solar_data 0 (-75) = Inr (regular_data, leap_year_data)
    \<and> length regular_data = 6205
    \<and> length leap_year_data = 6222"
  using fetch_solar_data_lengths [of 0 "-75"] by auto

section \<open>Range of the efficiency coefficients\<close>

text \<open>
  Claim C3. Every element of the \<open>efficiency_data\<close> of every record that
  \<open>fetch_solar_data\<close> returns, for either year, lies in \<open>[0, 0.90]\<close>. The bound
  comes from the two guards of \<open>get_efficiency_coefficient\<close> alone (lemma
  \<open>get_efficiency_coefficient_range\<close>), so it holds for every real solar vector,
  whatever the quotient of \<open>get_solar_vector\<close> is.
\<close>

theorem efficiency_data_in_range:
  assumes "fetch_solar_data lat long = Inr (regular_data, leap_year_data)"
  shows "\<forall>r \<in> set regular_data \<union> set leap_year_data.
           \<forall>k \<in> set (efficiency_data r). 0 \<le> k \<and> k \<le> 0.90"
  using fetch_solar_data_shape [of lat long] assms
  by (auto simp: records_in_range_def in_unit_range_def)

lemma coefficient_loop_length:
  assumes "for_each (coefficient_body wn sn w) ks ads = Inr ks'"
  shows "length ks' = length ks + length ads"
  using assms
proof (induction ads arbitrary: ks)
  case Nil
  then show ?case by simp
next
  case (Cons ad ads)
  from Cons.prems obtain ks1 where 1: "coefficient_body wn sn w ks ad = Inr ks1"
    and 2: "for_each (coefficient_body wn sn w) ks1 ads = Inr ks'"
    by (auto split: sum.splits)
  from coefficient_body_Inr [OF 1] have "length ks1 = length ks + 1" by auto
  with Cons.IH [OF 2] show ?case by simp
qed

lemma efficiency_loop_nonempty:
  assumes "for_each (efficiency_body wn sn w) recs day_data = Inr recs'"
    and "hdat \<in> set day_data" and "angle_data hdat \<noteq> []"
  shows "\<exists>r \<in> set recs'. efficiency_data r \<noteq> []"
  using assms(1,2)
proof (induction day_data arbitrary: recs)
  case Nil
  then show ?case by simp
next
  case (Cons x day_data)
  from Cons.prems(1) obtain recs1 where 1: "efficiency_body wn sn w recs x = Inr recs1"
    and 2: "for_each (efficiency_body wn sn w) recs1 day_data = Inr recs'"
    by (auto split: sum.splits)
  from efficiency_loop_shape [OF 2] obtain new where new: "recs' = recs1 @ new" by blast
  show ?case
  proof (cases "hdat = x")
    case True
    from 1 obtain ks where ks: "for_each (coefficient_body wn sn w) [] (angle_data x) = Inr ks"
      and r: "recs1 = recs @ [\<lparr>rec_month = rec_month x, rec_day = rec_day x,
                        rec_hour = rec_hour x, rec_start_time = rec_start_time x,
                        rec_end_time = rec_end_time x, efficiency_data = ks\<rparr>]"
      unfolding efficiency_body_def by (auto split: sum.splits)
    from coefficient_loop_length [OF ks] assms(3) True have "ks \<noteq> []" by auto
    then show ?thesis unfolding new r by auto
  next
    case False
    with Cons.prems(2) have "hdat \<in> set day_data" by simp
    from Cons.IH [OF 2 this] show ?thesis .
  qed
qed

lemma year_loop_first_day_nonempty:
  assumes "for_each (day_body wn sn lat long calendar) (w, cal, year_data) (d # days)
           = Inr (w', cal', year_data')"
    and "h \<in> set [5..21]" and "hour_angles lat long d h \<noteq> []"
  shows "\<exists>r \<in> set year_data'. efficiency_data r \<noteq> []"
proof -
  from assms(1) obtain s1 where 1: "day_body wn sn lat long calendar (w, cal, year_data) d = Inr s1"
    and 2: "for_each (day_body wn sn lat long calendar) s1 days = Inr (w', cal', year_data')"
    by (auto split: sum.splits)
  from day_body_Inr [OF 1]
  obtain month day_subtractor day_data tr day_records where
    sd: "scan_day lat long month day_subtractor d = Inr (day_data, tr)"
    and rw: "records_with (if toggle w (day_hr lat long d) then wn else sn) day_data
             = Inr day_records"
    and s1: "s1 = (toggle w (day_hr lat long d), Some (month, day_subtractor),
                   year_data @ day_records)"
    by blast
  from scan_day_result [of lat long month day_subtractor d] sd
  have ang: "map angle_data day_data = map (hour_angles lat long d) [5..21]" by auto
  have "hour_angles lat long d h \<in> set (map angle_data day_data)"
    unfolding ang set_map using assms(2) by (rule imageI)
  then obtain hdat where hdat: "hdat \<in> set day_data" "angle_data hdat = hour_angles lat long d h"
    by auto
  from efficiency_loop_nonempty [OF rw [unfolded records_with_def] hdat(1)] hdat(2) assms(3)
  obtain r where r: "r \<in> set day_records" "efficiency_data r \<noteq> []" by auto
  from year_loop_shape [OF 2 [unfolded s1]] obtain new where
    "year_data' = (year_data @ day_records) @ new" by blast
  with r show ?thesis by auto
qed

lemma equator_midday_angles: "hour_angles 0 (-75) day 12 \<noteq> []"
proof -
  have "(0::int) \<in> set [0..59]" by simp
  moreover have "valid_at 0 (-75) day 12 0" by (rule valid_at_equator_midday) simp_all
  ultimately have "0 \<in> set (filter (valid_at 0 (-75) day 12) [0..59])"
    by (simp only: set_filter) simp
  then show ?thesis unfolding hour_angles_def by (metis empty_iff list.map_disc_iff set_empty)
qed

text \<open>
  At latitude 0 and longitude \<open>-75\<close> the minute 12:00 of day 0 is valid, so the
  regular year has a record with a coefficient, and that coefficient is in range.
\<close>

theorem efficiency_data_in_range_witness:
  "\<exists>regular_data leap_year_data.
      fetch_solar_data 0 (-75) = Inr (regular_data, leap_year_data)
    \<and> (\<exists>r \<in> set regular_data \<union> set leap_year_data.
         \<exists>k \<in> set (efficiency_data r). 0 \<le> k \<and> k \<le> 0.90)"
proof -
  from fetch_solar_data_result [of 0 "-75"]
  obtain w1 cal1 regular_data leap_year_data where
    1: "for_each (day_body (0, - cos (rad 45), sin (rad 45)) (0, - cos (rad 45), sin (rad 45))
                  0 (-75) regular_calendar) (True, None, []) [0..364]
        = Inr (w1, cal1, regular_data)"
    and f: "fetch_solar_data 0 (-75) = Inr (regular_data, leap_year_data)"
    by blast
  have u: "[0..364] = (0 :: int) # [1..364]" by (subst upto_rec1) simp_all
  have h: "(12 :: int) \<in> set [5..21]" by simp
  from year_loop_first_day_nonempty [OF 1 [unfolded u] h equator_midday_angles]
  obtain r where r: "r \<in> set regular_data" "efficiency_data r \<noteq> []" by blast
  then obtain k where k: "k \<in> set (efficiency_data r)" by (meson last_in_set)
  from efficiency_data_in_range [OF f] r(1) k
  have "0 \<le> k \<and> k \<le> 0.90" by blast
  with f r(1) k show ?thesis by blast
qed

section \<open>The winter and summer flag\<close>

text \<open>
  Claim C2. The loop over the days of one year variant starts with the flag at winter
  (\<open>True\<close>; \<open>fetch_solar_data\<close> runs \<open>for_each (day_body \<dots>)\<close> from
  \<open>(True, \<dots>, [])\<close> for both variants). After the days \<open>days @ [day]\<close> the flag
  is \<open>True\<close> exactly when the number of days so far whose \<open>day_hr\<close> is 12, the
  last day included, is even: it is flipped on those days and on no other. The records
  of that last day are computed with the panel normal the flag selects after the day's
  own check.
\<close>

theorem winter_flag_toggle:
  assumes "for_each (day_body wn sn lat long calendar) (True, cal, []) (days @ [day])
           = Inr (flag, cal', year_data)"
  shows "flag = even (length (toggle_days lat long (days @ [day])))
       \<and> (\<exists>earlier month day_subtractor day_data tr day_records.
            scan_day lat long month day_subtractor day = Inr (day_data, tr)
          \<and> fst (day_duration tr) = day_hr lat long day
          \<and> records_with (if flag then wn else sn) day_data = Inr day_records
          \<and> year_data = earlier @ day_records)"
proof -
  from year_loop_shape [OF assms]
  have parity: "flag = even (length (toggle_days lat long (days @ [day])))" by auto
  from assms obtain s1 where 1: "for_each (day_body wn sn lat long calendar) (True, cal, []) days = Inr s1"
    and 2: "day_body wn sn lat long calendar s1 day = Inr (flag, cal', year_data)"
    unfolding for_each_append by (auto split: sum.splits)
  obtain w1 cal1 earlier where s1: "s1 = (w1, cal1, earlier)" by (cases s1) auto
  from day_body_Inr [OF 2 [unfolded s1]]
  obtain month day_subtractor day_data tr day_records where
    sd: "scan_day lat long month day_subtractor day = Inr (day_data, tr)"
    and rw: "records_with (if toggle w1 (day_hr lat long day) then wn else sn) day_data
             = Inr day_records"
    and st: "(flag, cal', year_data)
             = (toggle w1 (day_hr lat long day), Some (month, day_subtractor), earlier @ day_records)"
    by blast
  have "records_with (if flag then wn else sn) day_data = Inr day_records"
    using rw st by simp
  moreover have "year_data = earlier @ day_records" using st by simp
  ultimately show ?thesis
    using parity sd scan_day_day_hr [OF sd] by blast
qed

lemma pole_declination_negative: "declination_angle 0 False < 0"
proof -
  define B :: real where "B = 360 / pi * 0.0167 * sin (rad (360 / 365 * (0 - 2)))"
  define A :: real where "A = 360 / 365 * (0 + 10) + B"
  have p: "2 \<le> pi" by (rule pi_ge_two)
  have "\<bar>B\<bar> = (360 * 0.0167 / pi) * \<bar>sin (rad (360 / 365 * (0 - 2)))\<bar>"
    unfolding B_def by (simp add: abs_mult)
  also have "\<dots> \<le> (360 * 0.0167 / pi) * 1"
    by (intro mult_left_mono) simp_all
  also have "\<dots> \<le> 4"
    using p by (simp add: field_simps)
  finally have s: "\<bar>B\<bar> \<le> 4" .
  have A: "0 < A" "A < 90" using s unfolding A_def by (simp_all add: abs_le_iff)
  have "rad (-90) < rad A" "rad A < rad 90"
    using A by (simp_all add: less_deg_iff [symmetric] deg_less_iff [symmetric])
  then have "- (pi / 2) < rad A" "rad A < pi / 2"
    by (simp_all add: rad_def)
  then have c: "0 < cos (rad A)" by (rule cos_gt_zero_pi)
  have "0 < sin (rad 23.44)"
    by (intro sin_gt_zero) (simp_all add: rad_def field_simps)
  then have sn: "sin (rad (-23.44)) < 0" by (simp add: rad_def)
  have y: "sin (rad (-23.44)) * cos (rad A) < 0"
    using sn c by (simp add: mult_neg_pos)
  have "\<bar>sin (rad (-23.44)) * cos (rad A)\<bar> \<le> 1 * 1"
    unfolding abs_mult by (intro mult_mono) simp_all
  then have y1: "-1 \<le> sin (rad (-23.44)) * cos (rad A)" by simp
  have "arcsin (sin (rad (-23.44)) * cos (rad A)) < arcsin 0"
    using y1 y by (intro arcsin_less_arcsin) simp_all
  then show ?thesis unfolding declination_angle_def Let_def A_def B_def by simp
qed

lemma pole_elevation_negative:
  "solar_elevation_angle 90 (declination_angle 0 False) sh < 0"
proof -
  have r: "rad 90 = pi / 2" by (simp add: rad_def)
  have "solar_elevation_angle 90 (declination_angle 0 False) sh
        = arcsin (sin (declination_angle 0 False))"
    unfolding solar_elevation_angle_def r by simp
  also have "\<dots> = declination_angle 0 False"
    using declination_angle_bounds [of 0 False] by (intro arcsin_sin)
  finally show ?thesis using pole_declination_negative by simp
qed

lemma pole_not_valid: "\<not> valid_at 90 long 0 hour m"
proof -
  obtain a where sd: "solar_data 90 long (of_int 0) (of_int (hour * 60 + m)) (-5) False
         = Inr \<lparr>data_e_angle =
                  solar_elevation_angle 90 (declination_angle (of_int 0) False)
                    (solar_hour_angle (of_int (hour * 60 + m)) (of_int 0) long (-5) False),
                data_a_angle = a\<rparr>"
    using solar_data_result [of 90 long "of_int 0" "of_int (hour * 60 + m)" "-5" False]
    by blast
  have "deg (solar_elevation_angle 90 (declination_angle 0 False)
          (solar_hour_angle (of_int (hour * 60 + m)) 0 long (-5) False)) < 0"
    using pole_elevation_negative by (simp add: deg_less_iff rad_def)
  then show ?thesis
    unfolding valid_at_def minute_data_def sd by (simp add: minute_valid_def)
qed

lemma pole_day_hr: "day_hr 90 long 0 = 12"
proof -
  have v: "valid_minutes 90 long 0 = []"
    by (auto simp: valid_minutes_def filter_empty_conv pole_not_valid)
  from scan_day_result [of 90 long "[]" 0 0]
  obtain day_data tr where sd: "scan_day 90 long [] 0 0 = Inr (day_data, tr)"
    and idle: "tracker_idle tr"
    and start: "(day_start_hour tr, day_start_min tr) = start_after (0, 0) (valid_minutes 90 long 0)"
    by blast
  have "fst (day_duration tr) = 12"
    using idle start unfolding v by (simp add: day_duration_def tracker_idle_def Let_def)
  then show ?thesis by (simp add: day_hr_def sd)
qed

text \<open>
  At latitude 90 no minute of day 0 is valid, so \<open>day_hr\<close> is 12 and the flag
  is flipped to summer on day 0 itself.
\<close>

theorem winter_flag_toggle_witness:
  "\<exists>cal' year_data.
      for_each (day_body (0, - cos (rad 45), sin (rad 45)) (0, - cos (rad 45), sin (rad 45))
                  90 (-75) regular_calendar) (True, None, []) ([] @ [0])
        = Inr (False, cal', year_data)
    \<and> day_hr 90 (-75) 0 = 12"
proof -
  have "\<forall>d \<in> set ([] @ [0 :: int]). \<forall>prev. regular_calendar d prev \<noteq> None"
    by (simp add: regular_calendar_def)
  from year_loop_total [OF this, of 90 "-75" "(True, None, [])"]
  obtain flag cal' year_data where
    1: "for_each (day_body (0, - cos (rad 45), sin (rad 45)) (0, - cos (rad 45), sin (rad 45))
                  90 (-75) regular_calendar) (True, None, []) ([] @ [0])
        = Inr (flag, cal', year_data)"
    by (metis prod_cases3)
  from winter_flag_toggle [OF 1]
  have "flag = even (length (toggle_days 90 (-75) ([] @ [0])))" by blast
  then have "flag = False" by (simp add: toggle_days_def pole_day_hr)
  with 1 show ?thesis using pole_day_hr by blast
qed

end
